theory Spec2Isabelle
  imports Complex_Main "HOL-Library.Log_Nat"
begin

section \<open>Values handled by the backend\<close>

text \<open>
  The payloads that travel through \<^verbatim>\<open>src/backend/app.py\<close> are what the service
  classes return: Python values built from \<^verbatim>\<open>None\<close>, booleans, numbers, strings,
  lists and dicts. Numbers are rationals (every finite float is one); only their being
  zero or not matters to the cache logic.
\<close>

datatype json =
    JNull
  | JBool bool
  | JNum rat
  | JStr string
  | JList "json list"
  | JObj "(string \<times> json) list"

text \<open>Python truthiness, as tested by \<^verbatim>\<open>if data:\<close> and \<^verbatim>\<open>if not stocks:\<close>.\<close>

fun truthy :: "json \<Rightarrow> bool" where
  "truthy JNull = False"
| "truthy (JBool b) = b"
| "truthy (JNum n) = (n \<noteq> 0)"
| "truthy (JStr s) = (s \<noteq> [])"
| "truthy (JList xs) = (xs \<noteq> [])"
| "truthy (JObj kvs) = (kvs \<noteq> [])"

text \<open>
  The exceptions the modelled code can meet: a missing dict key, an operation applied to
  a value of the wrong type (\<^verbatim>\<open>len\<close> or a slice of a value that is no sequence), a
  method called on \<^verbatim>\<open>None\<close>, and whatever a service call raises.
\<close>

datatype exn =
    KeyError string
  | TypeError
  | AttributeError
  | Exception string

text \<open>
  The slice \<^verbatim>\<open>xs[:n]\<close>: the first \<open>n\<close> elements for \<open>n \<ge> 0\<close>, all but the last
  \<open>-n\<close> elements for \<open>n < 0\<close>. It builds a new list.
\<close>

definition slice_to :: "int \<Rightarrow> 'a list \<Rightarrow> 'a list" where
  "slice_to n xs = (if 0 \<le> n then take (nat n) xs else take (length xs - nat (- n)) xs)"

text \<open>\<^verbatim>\<open>value[:n]\<close> on a payload: lists and strings can be sliced, nothing else.\<close>

fun py_slice :: "json \<Rightarrow> int \<Rightarrow> exn + json" where
  "py_slice (JList xs) n = Inr (JList (slice_to n xs))"
| "py_slice (JStr s) n = Inr (JStr (slice_to n s))"
| "py_slice _ n = Inl TypeError"

text \<open>\<^verbatim>\<open>len(value)\<close>: defined on lists, dicts and strings.\<close>

fun py_len :: "json \<Rightarrow> exn + nat" where
  "py_len (JList xs) = Inr (length xs)"
| "py_len (JObj kvs) = Inr (length kvs)"
| "py_len (JStr s) = Inr (length s)"
| "py_len _ = Inl TypeError"

section \<open>The cache and the environment\<close>

text \<open>
  A \<^verbatim>\<open>datetime\<close> is a number of microseconds (its resolution) on the local wall clock;
  a \<^verbatim>\<open>timedelta\<close> is a difference of two.
\<close>

type_synonym time = int

text \<open>
  \<^verbatim>\<open>timedelta.total_seconds()\<close> is the true division of the integer number of
  microseconds by \<open>10\<^sup>6\<close>. Python rounds the quotient of two integers correctly to the
  nearest double, ties to the even significand; the double is the real number it denotes.

  \<open>round_half_even\<close> rounds a real to the nearest integer, ties to even. For \<open>d \<noteq> 0\<close>,
  \<open>float_scale d\<close> is the exponent \<open>k\<close> of the unit in the last place of the quotient:
  \<open>2\<^sup>5\<^sup>2 \<le> |d| / (10\<^sup>6 \<cdot> 2\<^sup>k) < 2\<^sup>5\<^sup>3\<close>. It is found from the bit length of \<open>|d|\<close> (that
  of \<open>10\<^sup>6\<close> is 20) and one comparison. The significand has 53 bits; the exponent is not
  bounded here, since the spans between two datetimes (below \<open>3.2 \<cdot> 10\<^sup>1\<^sup>7\<close> microseconds)
  are far from the largest and the smallest normal doubles.
\<close>

definition round_half_even :: "real \<Rightarrow> int" where
  "round_half_even q =
     (let f = \<lfloor>q\<rfloor>; r = q - real_of_int f
      in if r < 1 / 2 then f else if 1 / 2 < r then f + 1 else if even f then f else f + 1)"

definition float_scale :: "int \<Rightarrow> int" where
  "float_scale d =
     (let e0 = bitlen \<bar>d\<bar> - 20
      in (if 1000000 * 2 powi e0 \<le> real_of_int \<bar>d\<bar> then e0 else e0 - 1) - 52)"

definition total_seconds :: "int \<Rightarrow> real" where
  "total_seconds d =
     (if d = 0 then 0
      else real_of_int (round_half_even (real_of_int d / (1000000 * 2 powi float_scale d)))
             * 2 powi float_scale d)"

text \<open>One cache entry: the dict \<^verbatim>\<open>{'data': ..., 'last_updated': ...}\<close>.\<close>

record entry =
  data :: json
  last_updated :: "time option"

type_synonym cache = "string \<rightharpoonup> entry"

definition empty_entry :: entry where
  "empty_entry = \<lparr>data = JNull, last_updated = None\<rparr>"

text \<open>The module-level dict \<^verbatim>\<open>cache\<close> (app.py, lines 38-45).\<close>

definition init_cache :: cache where
  "init_cache =
     [''stocks'' \<mapsto> empty_entry,
      ''indices'' \<mapsto> empty_entry,
      ''top_gainers'' \<mapsto> empty_entry,
      ''top_losers'' \<mapsto> empty_entry,
      ''sectors'' \<mapsto> empty_entry,
      ''merolagani_latest'' \<mapsto> empty_entry]"

text \<open>
  What an HTTP request of a service method gave: the request raised, or it came back with
  a status code and a body, \<open>None\<close> when \<^verbatim>\<open>response.json()\<close> raises.
\<close>

datatype http = ConnError | Resp nat "json option"

text \<open>
  The world outside the process, as an oracle indexed by the number of the call:
  \<^item> \<open>now_at n\<close> is what the \<open>n\<close>-th call of \<^verbatim>\<open>datetime.now()\<close> returns (the wall
    clock is not assumed monotone);
  \<^item> \<open>stocks_at n\<close> is the outcome of \<^verbatim>\<open>get_all_stocks()\<close> as the \<open>n\<close>-th service
    call: every return path of that method returns a list;
  \<^item> \<open>service_at n name\<close> is the outcome of the service method \<open>name\<close>
    (\<^verbatim>\<open>get_indices\<close>, \<^verbatim>\<open>get_sector_data\<close>, \<^verbatim>\<open>get_latest_market_data\<close>) as the
    \<open>n\<close>-th service call;
  \<^item> \<open>unofficial_at n name\<close> is the answer of the unofficial API to the request made
    by \<open>name\<close> (\<^verbatim>\<open>get_top_gainers\<close>, \<^verbatim>\<open>get_top_losers\<close>), and \<open>sorted_at n name\<close> the
    list \<^verbatim>\<open>sorted(self.get_all_stocks(), key=...)\<close> of its fallback, \<open>None\<close> when
    computing it raises.
\<close>

record env =
  now_at :: "nat \<Rightarrow> time"
  stocks_at :: "nat \<Rightarrow> exn + json list"
  service_at :: "nat \<Rightarrow> string \<Rightarrow> exn + json"
  unofficial_at :: "nat \<Rightarrow> string \<Rightarrow> http"
  sorted_at :: "nat \<Rightarrow> string \<Rightarrow> json list option"

text \<open>
  The state of the process: the cache, and two ghost fields that record how the oracle
  has been consumed: the number of clock readings, and the service calls made by
  \<^verbatim>\<open>app.py\<close> so far, each with its \<^verbatim>\<open>limit\<close> argument.
\<close>

record sys =
  cache :: cache
  nclock :: nat
  fetch_log :: "(string \<times> int option) list"

definition init_sys :: sys where
  "init_sys = \<lparr>cache = init_cache, nclock = 0, fetch_log = []\<rparr>"

subsection \<open>Statements that may raise\<close>

type_synonym 'a prog = "sys \<Rightarrow> (exn + 'a) \<times> sys"

definition returnE :: "'a \<Rightarrow> 'a prog" where
  "returnE x s = (Inr x, s)"

definition raiseE :: "exn \<Rightarrow> 'a prog" where
  "raiseE e s = (Inl e, s)"

definition bindE :: "'a prog \<Rightarrow> ('a \<Rightarrow> 'b prog) \<Rightarrow> 'b prog" where
  "bindE m f s = (case m s of (Inl e, s1) \<Rightarrow> (Inl e, s1) | (Inr x, s1) \<Rightarrow> f x s1)"

text \<open>\<^verbatim>\<open>try: m  except Exception as e: h(e)\<close>\<close>

definition try_except :: "'a prog \<Rightarrow> (exn \<Rightarrow> 'a prog) \<Rightarrow> 'a prog" where
  "try_except m h s = (case m s of (Inl e, s1) \<Rightarrow> h e s1 | (Inr x, s1) \<Rightarrow> (Inr x, s1))"

definition liftE :: "exn + 'a \<Rightarrow> 'a prog" where
  "liftE r s = (r, s)"

text \<open>\<^verbatim>\<open>datetime.now()\<close>\<close>

definition datetime_now :: "env \<Rightarrow> time prog" where
  "datetime_now ev s = (Inr (now_at ev (nclock s)), s\<lparr>nclock := Suc (nclock s)\<rparr>)"

text \<open>\<^verbatim>\<open>cache[key]\<close>, \<^verbatim>\<open>cache[key]['data'] = v\<close> and \<^verbatim>\<open>cache[key]['last_updated'] = t\<close>\<close>

definition cache_get :: "cache \<Rightarrow> string \<Rightarrow> exn + entry" where
  "cache_get c k = (case c k of None \<Rightarrow> Inl (KeyError k) | Some e \<Rightarrow> Inr e)"

definition set_data :: "cache \<Rightarrow> string \<Rightarrow> json \<Rightarrow> exn + cache" where
  "set_data c k v = (case c k of None \<Rightarrow> Inl (KeyError k) | Some e \<Rightarrow> Inr (c(k \<mapsto> e\<lparr>data := v\<rparr>)))"

definition set_last_updated :: "cache \<Rightarrow> string \<Rightarrow> time \<Rightarrow> exn + cache" where
  "set_last_updated c k t =
     (case c k of None \<Rightarrow> Inl (KeyError k) | Some e \<Rightarrow> Inr (c(k \<mapsto> e\<lparr>last_updated := Some t\<rparr>)))"

text \<open>
  The two assignments that populate an entry, wherever they occur (lines 113-114, 156-157,
  208-209, 240-241, 272-273, 302-303, 401-402):
  \<^verbatim>\<open>
  cache[key]['data'] = v
  cache[key]['last_updated'] = datetime.now()
  \<close>
\<close>

definition assign_entry :: "env \<Rightarrow> string \<Rightarrow> json \<Rightarrow> unit prog" where
  "assign_entry ev k v s =
     (case set_data (cache s) k v of
        Inl e \<Rightarrow> (Inl e, s)
      | Inr c1 \<Rightarrow>
          (case datetime_now ev (s\<lparr>cache := c1\<rparr>) of
             (Inl e, s1) \<Rightarrow> (Inl e, s1)
           | (Inr t, s1) \<Rightarrow>
               (case set_last_updated (cache s1) k t of
                  Inl e \<Rightarrow> (Inl e, s1)
                | Inr c2 \<Rightarrow> (Inr (), s1\<lparr>cache := c2\<rparr>))))"

text \<open>
  The same two assignments with the clock reading given: the \<^verbatim>\<open>put(key, value, now)\<close>
  of the cache store.
\<close>

definition cache_put :: "cache \<Rightarrow> string \<Rightarrow> json \<Rightarrow> time \<Rightarrow> exn + cache" where
  "cache_put c k v t =
     (case set_data c k v of Inl e \<Rightarrow> Inl e | Inr c1 \<Rightarrow> set_last_updated c1 k t)"

text \<open>\<^verbatim>\<open>cache[key]\<close> as a statement: it reads the current cache.\<close>

definition read_entry :: "string \<Rightarrow> entry prog" where
  "read_entry k s = (cache_get (cache s) k, s)"

subsection \<open>\<^verbatim>\<open>is_cache_valid\<close> (app.py, lines 88-94)\<close>

text \<open>
  \<^verbatim>\<open>
  def is_cache_valid(cache_key):
      if cache_key not in cache or cache[cache_key]['data'] is None \
              or cache[cache_key]['last_updated'] is None:
          return False
      elapsed = datetime.now() - cache[cache_key]['last_updated']
      return elapsed.total_seconds() < CACHE_TIMEOUT
  \<close>
  \<open>CACHE_TIMEOUT\<close> is the integer read from the environment at start-up (default 300);
  it is the parameter \<open>ttl\<close>. Subtracting \<^verbatim>\<open>None\<close> from a datetime is a TypeError.
  Python compares a float with an integer by their exact values.
\<close>

definition is_cache_valid :: "env \<Rightarrow> int \<Rightarrow> string \<Rightarrow> bool prog" where
  "is_cache_valid ev ttl cache_key =
     (\<lambda>s. if cache_key \<notin> dom (cache s) then returnE False s
          else bindE (read_entry cache_key) (\<lambda>e1.
               if data e1 = JNull then returnE False
               else bindE (read_entry cache_key) (\<lambda>e2.
                    if last_updated e2 = None then returnE False
                    else bindE (datetime_now ev) (\<lambda>now.
                         bindE (read_entry cache_key) (\<lambda>e3.
                         (case last_updated e3 of
                            None \<Rightarrow> raiseE TypeError
                          | Some t \<Rightarrow>
                              returnE (total_seconds (now - t) < real_of_int ttl)))))) s)"

section \<open>The service methods called by the cache\<close>

definition log_call :: "string \<Rightarrow> int option \<Rightarrow> sys \<Rightarrow> sys" where
  "log_call name arg s = s\<lparr>fetch_log := fetch_log s @ [(name, arg)]\<rparr>"

text \<open>\<^verbatim>\<open>NepseService.get_all_stocks()\<close>: a list, whichever source answered.\<close>

definition nepse_get_all_stocks :: "env \<Rightarrow> json prog" where
  "nepse_get_all_stocks ev s =
     ((case stocks_at ev (length (fetch_log s)) of Inl e \<Rightarrow> Inl e | Inr xs \<Rightarrow> Inr (JList xs)),
      log_call ''get_all_stocks'' None s)"

text \<open>
  \<^verbatim>\<open>get_indices()\<close>, \<^verbatim>\<open>get_sector_data()\<close> and
  \<^verbatim>\<open>MerolaganiService.get_latest_market_data()\<close>: whatever the oracle says.
\<close>

definition opaque_service :: "string \<Rightarrow> env \<Rightarrow> json prog" where
  "opaque_service name ev s = (service_at ev (length (fetch_log s)) name, log_call name None s)"

definition nepse_get_indices :: "env \<Rightarrow> json prog" where
  "nepse_get_indices = opaque_service ''get_indices''"

definition nepse_get_sector_data :: "env \<Rightarrow> json prog" where
  "nepse_get_sector_data = opaque_service ''get_sector_data''"

definition merolagani_get_latest_market_data :: "env \<Rightarrow> json prog" where
  "merolagani_get_latest_market_data = opaque_service ''get_latest_market_data''"

text \<open>
  \<^verbatim>\<open>get_top_gainers(limit=10)\<close> and \<^verbatim>\<open>get_top_losers(limit=10)\<close>
  (nepse_service.py, lines 79-117) have one body, up to the URL and the direction of the
  sort:
  \<^verbatim>\<open>
  try:
      response = requests.get(f"{self.unofficial_api_url}/top-ten/top-gainer?all=true")
      if response.status_code == 200:
          data = response.json()
          return data[:limit] if isinstance(data, list) else []
  except Exception as e: print(...)
  try:
      all_stocks = self.get_all_stocks()
      sorted_stocks = sorted(all_stocks, key=lambda x: x.get('changePercent', 0), reverse=True)
      return sorted_stocks[:limit]
  except Exception as e:
      print(...); return []
  \<close>
\<close>

definition top_fallback :: "json list option \<Rightarrow> int \<Rightarrow> json" where
  "top_fallback sorted_stocks limit =
     (case sorted_stocks of None \<Rightarrow> JList [] | Some xs \<Rightarrow> JList (slice_to limit xs))"

fun top_n :: "http \<Rightarrow> json list option \<Rightarrow> int \<Rightarrow> json" where
  "top_n ConnError sorted_stocks limit = top_fallback sorted_stocks limit"
| "top_n (Resp status body) sorted_stocks limit =
     (if status = 200 then
        (case body of
           None \<Rightarrow> top_fallback sorted_stocks limit
         | Some (JList xs) \<Rightarrow> JList (slice_to limit xs)
         | Some _ \<Rightarrow> JList [])
      else top_fallback sorted_stocks limit)"

definition top_service :: "string \<Rightarrow> env \<Rightarrow> int \<Rightarrow> json prog" where
  "top_service name ev limit s =
     (Inr (top_n (unofficial_at ev (length (fetch_log s)) name)
                 (sorted_at ev (length (fetch_log s)) name) limit),
      log_call name (Some limit) s)"

definition nepse_get_top_gainers :: "env \<Rightarrow> int \<Rightarrow> json prog" where
  "nepse_get_top_gainers = top_service ''get_top_gainers''"

definition nepse_get_top_losers :: "env \<Rightarrow> int \<Rightarrow> json prog" where
  "nepse_get_top_losers = top_service ''get_top_losers''"

section \<open>\<^verbatim>\<open>update_cache\<close> (app.py, lines 96-124)\<close>

text \<open>
  The list \<^verbatim>\<open>cache_operations\<close>: each lambda calls its service method with no
  argument, so the two top-ten methods run with their default \<^verbatim>\<open>limit=10\<close>.
\<close>

definition cache_operations :: "(string \<times> (env \<Rightarrow> json prog)) list" where
  "cache_operations =
     [(''stocks'', nepse_get_all_stocks),
      (''indices'', nepse_get_indices),
      (''top_gainers'', \<lambda>ev. nepse_get_top_gainers ev 10),
      (''top_losers'', \<lambda>ev. nepse_get_top_losers ev 10),
      (''sectors'', nepse_get_sector_data),
      (''merolagani_latest'', merolagani_get_latest_market_data)]"

text \<open>
  A \<^verbatim>\<open>for\<close> loop over a list: an exception that leaves the body leaves the loop, and
  the iterations after it are not run.
\<close>

fun for_each :: "('a \<Rightarrow> unit prog) \<Rightarrow> 'a list \<Rightarrow> unit prog" where
  "for_each body [] = returnE ()"
| "for_each body (x # xs) = bindE (body x) (\<lambda>_. for_each body xs)"

text \<open>
  One iteration of the loop (lines 109-122); logging has no effect on the state, and
  \<^verbatim>\<open>continue\<close> ends the iteration normally:
  \<^verbatim>\<open>
  try:
      data = fetch_function()
      if data:
          cache[cache_key]['data'] = data
          cache[cache_key]['last_updated'] = datetime.now()
      else: logger.warning(...)
  except Exception as e:
      logger.error(...)
      continue
  \<close>
\<close>

definition refresh_one :: "env \<Rightarrow> string \<times> (env \<Rightarrow> json prog) \<Rightarrow> unit prog" where
  "refresh_one ev op =
     (case op of (cache_key, fetch_function) \<Rightarrow>
        try_except
          (bindE (fetch_function ev) (\<lambda>data.
             if truthy data then assign_entry ev cache_key data else returnE ()))
          (\<lambda>e. returnE ()))"

definition update_cache :: "env \<Rightarrow> unit prog" where
  "update_cache ev = for_each (refresh_one ev) cache_operations"

section \<open>The read handlers\<close>

text \<open>
  A response is a status code and the dict given to \<^verbatim>\<open>jsonify\<close>. The strings made
  from a datetime or an exception are kept symbolic: \<open>IsoFormat t\<close> is
  \<^verbatim>\<open>t.isoformat()\<close>, \<open>StrfTime t\<close> is \<^verbatim>\<open>t.strftime('%Y-%m-%d %H:%M:%S')\<close> and
  \<open>StrOf e\<close> is \<^verbatim>\<open>str(e)\<close>.
\<close>

datatype field =
    J json
  | B bool
  | S string
  | N int
  | IsoFormat time
  | StrfTime time
  | StrOf exn

record response =
  code :: nat
  body :: "(string \<times> field) list"

text \<open>\<^verbatim>\<open>x.isoformat()\<close> or \<^verbatim>\<open>x.strftime(...)\<close> on a stored timestamp.\<close>

definition the_datetime :: "time option \<Rightarrow> time prog" where
  "the_datetime x = (case x of None \<Rightarrow> raiseE AttributeError | Some t \<Rightarrow> returnE t)"

text \<open>The decorator \<^verbatim>\<open>api_error_handler\<close> (lines 50-63), applied to \<^verbatim>\<open>get_stocks\<close>.\<close>

definition api_error_handler :: "env \<Rightarrow> response prog \<Rightarrow> response prog" where
  "api_error_handler ev f =
     try_except f (\<lambda>e.
       bindE (datetime_now ev) (\<lambda>t.
       returnE \<lparr>code = 500,
                body = [(''status'', S ''error''), (''message'', StrOf e),
                        (''timestamp'', IsoFormat t)]\<rparr>))"

text \<open>
  \<^verbatim>\<open>get_stocks\<close> (lines 134-165). The subscripts of one expression read the same,
  unchanged entry; it is read once.
\<close>

definition get_stocks :: "env \<Rightarrow> int \<Rightarrow> response prog" where
  "get_stocks ev ttl =
     api_error_handler ev
       (bindE (is_cache_valid ev ttl ''stocks'') (\<lambda>valid.
          if valid then
            bindE (read_entry ''stocks'') (\<lambda>e.
            bindE (the_datetime (last_updated e)) (\<lambda>t.
            bindE (liftE (py_len (data e))) (\<lambda>n.
            returnE \<lparr>code = 200,
                     body = [(''status'', S ''success''), (''data'', J (data e)),
                             (''cached'', B True), (''last_updated'', IsoFormat t),
                             (''count'', N (int n))]\<rparr>)))
          else
            bindE (nepse_get_all_stocks ev) (\<lambda>stocks.
            if \<not> truthy stocks then
              bindE (datetime_now ev) (\<lambda>t.
              returnE \<lparr>code = 404,
                       body = [(''status'', S ''error''),
                               (''message'', S ''No stocks data available''),
                               (''timestamp'', IsoFormat t)]\<rparr>)
            else
              bindE (assign_entry ev ''stocks'' stocks) (\<lambda>_.
              bindE (read_entry ''stocks'') (\<lambda>e.
              bindE (the_datetime (last_updated e)) (\<lambda>t.
              bindE (liftE (py_len stocks)) (\<lambda>n.
              returnE \<lparr>code = 200,
                       body = [(''status'', S ''success''), (''data'', J stocks),
                               (''cached'', B False), (''last_updated'', IsoFormat t),
                               (''count'', N (int n))]\<rparr>)))))))"

text \<open>
  \<^verbatim>\<open>get_indices\<close> (lines 194-222), \<^verbatim>\<open>get_sectors\<close> (lines 288-316) and
  \<^verbatim>\<open>get_merolagani_latest\<close> (lines 387-415) have one body, up to the cache key and the
  service method:
  \<^verbatim>\<open>
  if is_cache_valid(key):
      return jsonify({'success': True, 'data': cache[key]['data'], 'cached': True,
                      'last_updated': cache[key]['last_updated'].strftime(...)})
  try:
      x = service()
      if x:
          cache[key]['data'] = x
          cache[key]['last_updated'] = datetime.now()
      return jsonify({'success': True, 'data': x, 'cached': False,
                      'last_updated': datetime.now().strftime(...)})
  except Exception as e:
      return jsonify({'success': False, 'error': str(e)}), 500
  \<close>
\<close>

definition plain_handler :: "string \<Rightarrow> (env \<Rightarrow> json prog) \<Rightarrow> env \<Rightarrow> int \<Rightarrow> response prog" where
  "plain_handler key service ev ttl =
     bindE (is_cache_valid ev ttl key) (\<lambda>valid.
       if valid then
         bindE (read_entry key) (\<lambda>e.
         bindE (the_datetime (last_updated e)) (\<lambda>t.
         returnE \<lparr>code = 200,
                  body = [(''success'', B True), (''data'', J (data e)),
                          (''cached'', B True), (''last_updated'', StrfTime t)]\<rparr>))
       else
         try_except
           (bindE (service ev) (\<lambda>x.
            bindE (if truthy x then assign_entry ev key x else returnE ()) (\<lambda>_.
            bindE (datetime_now ev) (\<lambda>t.
            returnE \<lparr>code = 200,
                     body = [(''success'', B True), (''data'', J x),
                             (''cached'', B False), (''last_updated'', StrfTime t)]\<rparr>))))
           (\<lambda>e. returnE \<lparr>code = 500, body = [(''success'', B False), (''error'', StrOf e)]\<rparr>))"

definition get_indices :: "env \<Rightarrow> int \<Rightarrow> response prog" where
  "get_indices = plain_handler ''indices'' nepse_get_indices"

definition get_sectors :: "env \<Rightarrow> int \<Rightarrow> response prog" where
  "get_sectors = plain_handler ''sectors'' nepse_get_sector_data"

definition get_merolagani_latest :: "env \<Rightarrow> int \<Rightarrow> response prog" where
  "get_merolagani_latest = plain_handler ''merolagani_latest'' merolagani_get_latest_market_data"

text \<open>
  \<^verbatim>\<open>get_top_gainers\<close> (lines 224-254) and \<^verbatim>\<open>get_top_losers\<close> (lines 256-286), with
  \<open>limit\<close> the integer \<^verbatim>\<open>request.args.get('limit', default=10, type=int)\<close>:
  \<^verbatim>\<open>
  if is_cache_valid(key):
      return jsonify({'success': True, 'data': cache[key]['data'][:limit], 'cached': True,
                      'last_updated': cache[key]['last_updated'].strftime(...)})
  try:
      top = service(limit)
      if top:
          cache[key]['data'] = top
          cache[key]['last_updated'] = datetime.now()
      return jsonify({'success': True, 'data': top[:limit], 'cached': False,
                      'last_updated': datetime.now().strftime(...)})
  except Exception as e:
      return jsonify({'success': False, 'error': str(e)}), 500
  \<close>
\<close>

definition top_handler ::
  "string \<Rightarrow> (env \<Rightarrow> int \<Rightarrow> json prog) \<Rightarrow> env \<Rightarrow> int \<Rightarrow> int \<Rightarrow> response prog" where
  "top_handler key service ev ttl limit =
     bindE (is_cache_valid ev ttl key) (\<lambda>valid.
       if valid then
         bindE (read_entry key) (\<lambda>e.
         bindE (liftE (py_slice (data e) limit)) (\<lambda>d.
         bindE (the_datetime (last_updated e)) (\<lambda>t.
         returnE \<lparr>code = 200,
                  body = [(''success'', B True), (''data'', J d),
                          (''cached'', B True), (''last_updated'', StrfTime t)]\<rparr>)))
       else
         try_except
           (bindE (service ev limit) (\<lambda>top.
            bindE (if truthy top then assign_entry ev key top else returnE ()) (\<lambda>_.
            bindE (liftE (py_slice top limit)) (\<lambda>d.
            bindE (datetime_now ev) (\<lambda>t.
            returnE \<lparr>code = 200,
                     body = [(''success'', B True), (''data'', J d),
                             (''cached'', B False), (''last_updated'', StrfTime t)]\<rparr>)))))
           (\<lambda>e. returnE \<lparr>code = 500, body = [(''success'', B False), (''error'', StrOf e)]\<rparr>))"

definition get_top_gainers :: "env \<Rightarrow> int \<Rightarrow> int \<Rightarrow> response prog" where
  "get_top_gainers = top_handler ''top_gainers'' nepse_get_top_gainers"

definition get_top_losers :: "env \<Rightarrow> int \<Rightarrow> int \<Rightarrow> response prog" where
  "get_top_losers = top_handler ''top_losers'' nepse_get_top_losers"

section \<open>The states of the process\<close>

text \<open>
  The cache starts as \<open>init_cache\<close>; afterwards it is changed by the refresh passes of
  the scheduler (the first one at start-up) and by the six read handlers, one at a time.
\<close>

inductive reachable :: "env \<Rightarrow> int \<Rightarrow> sys \<Rightarrow> bool" for ev :: env and ttl :: int where
  start: "reachable ev ttl init_sys"
| refresh: "reachable ev ttl s \<Longrightarrow> reachable ev ttl (snd (update_cache ev s))"
| stocks: "reachable ev ttl s \<Longrightarrow> reachable ev ttl (snd (get_stocks ev ttl s))"
| indices: "reachable ev ttl s \<Longrightarrow> reachable ev ttl (snd (get_indices ev ttl s))"
| top_gainers: "reachable ev ttl s \<Longrightarrow> reachable ev ttl (snd (get_top_gainers ev ttl limit s))"
| top_losers: "reachable ev ttl s \<Longrightarrow> reachable ev ttl (snd (get_top_losers ev ttl limit s))"
| sectors: "reachable ev ttl s \<Longrightarrow> reachable ev ttl (snd (get_sectors ev ttl s))"
| merolagani_latest:
    "reachable ev ttl s \<Longrightarrow> reachable ev ttl (snd (get_merolagani_latest ev ttl s))"

text \<open>The keys whose service methods return lists only.\<close>

definition list_keys :: "string set" where
  "list_keys = {''stocks'', ''top_gainers'', ''top_losers''}"

fun is_list :: "json \<Rightarrow> bool" where
  "is_list (JList xs) = True"
| "is_list _ = False"

text \<open>
  What every reachable cache satisfies: the keys are those of \<open>init_cache\<close>; an entry
  has data exactly when it has a timestamp; the data of a list key is a list.
\<close>

definition paired :: "entry \<Rightarrow> bool" where
  "paired e = ((data e = JNull) = (last_updated e = None))"

definition cache_ok :: "cache \<Rightarrow> bool" where
  "cache_ok c =
     (dom c = dom init_cache \<and>
      (\<forall>k e. c k = Some e \<longrightarrow>
         paired e \<and> (k \<in> list_keys \<longrightarrow> data e = JNull \<or> is_list (data e))))"

section \<open>Requests by category\<close>

text \<open>
  The cached categories, each with its route. \<open>handle\<close> is the routing table of the
  application; the query parameter \<open>limit\<close> is read by the two top-ten routes only.
\<close>

datatype category = Stocks | Indices | TopGainers | TopLosers | Sectors | MerolaganiLatest

fun key_of :: "category \<Rightarrow> string" where
  "key_of Stocks = ''stocks''"
| "key_of Indices = ''indices''"
| "key_of TopGainers = ''top_gainers''"
| "key_of TopLosers = ''top_losers''"
| "key_of Sectors = ''sectors''"
| "key_of MerolaganiLatest = ''merolagani_latest''"

fun handle :: "category \<Rightarrow> env \<Rightarrow> int \<Rightarrow> int \<Rightarrow> response prog" where
  "handle Stocks ev ttl limit = get_stocks ev ttl"
| "handle Indices ev ttl limit = get_indices ev ttl"
| "handle TopGainers ev ttl limit = get_top_gainers ev ttl limit"
| "handle TopLosers ev ttl limit = get_top_losers ev ttl limit"
| "handle Sectors ev ttl limit = get_sectors ev ttl"
| "handle MerolaganiLatest ev ttl limit = get_merolagani_latest ev ttl"

text \<open>The service call a handler makes when its entry is not valid, and its log entry.\<close>

fun fetch_of :: "category \<Rightarrow> int \<Rightarrow> env \<Rightarrow> json prog" where
  "fetch_of Stocks limit = nepse_get_all_stocks"
| "fetch_of Indices limit = nepse_get_indices"
| "fetch_of TopGainers limit = (\<lambda>ev. nepse_get_top_gainers ev limit)"
| "fetch_of TopLosers limit = (\<lambda>ev. nepse_get_top_losers ev limit)"
| "fetch_of Sectors limit = nepse_get_sector_data"
| "fetch_of MerolaganiLatest limit = merolagani_get_latest_market_data"

fun call_of :: "category \<Rightarrow> int \<Rightarrow> string \<times> int option" where
  "call_of Stocks limit = (''get_all_stocks'', None)"
| "call_of Indices limit = (''get_indices'', None)"
| "call_of TopGainers limit = (''get_top_gainers'', Some limit)"
| "call_of TopLosers limit = (''get_top_losers'', Some limit)"
| "call_of Sectors limit = (''get_sector_data'', None)"
| "call_of MerolaganiLatest limit = (''get_latest_market_data'', None)"


fun truncated :: "int \<Rightarrow> json \<Rightarrow> json" where
  "truncated limit (JList xs) = JList (slice_to limit xs)"
| "truncated limit (JStr s) = JStr (slice_to limit s)"
| "truncated limit v = v"

fun shown :: "category \<Rightarrow> int \<Rightarrow> json \<Rightarrow> json" where
  "shown TopGainers limit v = truncated limit v"
| "shown TopLosers limit v = truncated limit v"
| "shown c limit v = v"

text \<open>
  A success response that carries the payload \<open>d\<close> and the flag \<open>cached = flag\<close>.
\<close>

definition answers :: "exn + response \<Rightarrow> json \<Rightarrow> bool \<Rightarrow> bool" where
  "answers out d flag =
     (case out of
        Inl e \<Rightarrow> False
      | Inr r \<Rightarrow> code r = 200 \<and> map_of (body r) ''data'' = Some (J d) \<and>
                 map_of (body r) ''cached'' = Some (B flag))"


section \<open>The freshness rule in the words of the specification\<close>

text \<open>
  Valid iff \<open>fetchedAt\<close> is present and \<open>now - fetchedAt < ttl\<close>: the two times are in
  microseconds and the TTL in seconds, and the comparison is the exact one.
\<close>

definition spec_is_valid :: "time \<Rightarrow> time option \<Rightarrow> int \<Rightarrow> bool" where
  "spec_is_valid now fetchedAt ttl =
     (case fetchedAt of
        None \<Rightarrow> False
      | Some t \<Rightarrow> real_of_int (now - t) / 1000000 < real_of_int ttl)"

text \<open>The timestamp stored for a key, absent when the key has no entry.\<close>

definition stored_timestamp :: "cache \<Rightarrow> string \<Rightarrow> time option" where
  "stored_timestamp c k = (case c k of None \<Rightarrow> None | Some e \<Rightarrow> last_updated e)"

section \<open>Auxiliary notions for the proofs\<close>

text \<open>
  A service call leaves the cache and the clock alone, and returns a list when it feeds a
  list key.
\<close>

definition fetch_frame :: "string \<Rightarrow> (env \<Rightarrow> json prog) \<Rightarrow> bool" where
  "fetch_frame k f =
     (\<forall>ev s. cache (snd (f ev s)) = cache s \<and> nclock (snd (f ev s)) = nclock s \<and>
             (\<forall>v. fst (f ev s) = Inr v \<longrightarrow> k \<in> list_keys \<longrightarrow> is_list v))"

text \<open>A statement keeps \<open>cache_ok\<close> and returns values satisfying \<open>Q\<close>.\<close>

definition ok_prog :: "'a prog \<Rightarrow> ('a \<Rightarrow> bool) \<Rightarrow> bool" where
  "ok_prog m Q =
     (\<forall>s. cache_ok (cache s) \<longrightarrow>
          cache_ok (cache (snd (m s))) \<and> (\<forall>x. fst (m s) = Inr x \<longrightarrow> Q x))"

text \<open>The state of a refresh pass started in \<open>s\<close>, before its iteration number \<open>i\<close>.\<close>

definition pass_prefix :: "env \<Rightarrow> sys \<Rightarrow> nat \<Rightarrow> sys" where
  "pass_prefix ev s i = snd (for_each (refresh_one ev) (take i cache_operations) s)"

text \<open>The state in which an iteration leaves the process.\<close>

definition refresh_step :: "env \<Rightarrow> sys \<Rightarrow> string \<times> (env \<Rightarrow> json prog) \<Rightarrow> sys" where
  "refresh_step ev s op = snd (refresh_one ev op s)"

text \<open>The reals that a double can denote, the range of the exponent left aside.\<close>

definition is_double :: "real \<Rightarrow> bool" where
  "is_double y = (\<exists>M j. \<bar>M\<bar> < 2 ^ 53 \<and> y = real_of_int M * 2 powi j)"

text \<open>The service calls of one refresh pass, in the order of \<open>cache_operations\<close>.\<close>

definition refresh_calls :: "(string \<times> int option) list" where
  "refresh_calls =
     [(''get_all_stocks'', None), (''get_indices'', None), (''get_top_gainers'', Some 10),
      (''get_top_losers'', Some 10), (''get_sector_data'', None),
      (''get_latest_market_data'', None)]"

text \<open>
  A concrete world for the examples: the clock advances one second per reading, the stock
  service raises, the index service returns one index during the first pass and raises
  afterwards, the sector and MeroLagani services return an empty dict, and the unofficial
  API lists three gainers and losers.
\<close>

definition demo_env :: env where
  "demo_env =
     \<lparr>now_at = (\<lambda>n. 1000000 * int n),
      stocks_at = (\<lambda>n. Inl (Exception ''upstream down'')),
      service_at = (\<lambda>n name. if name = ''get_indices''
                               then (if n < 6 then Inr (JList [JStr ''NEPSE''])
                                     else Inl (Exception ''timeout''))
                               else Inr (JObj [])),
      unofficial_at = (\<lambda>n name. Resp 200 (Some (JList [JNum 1, JNum 2, JNum 3]))),
      sorted_at = (\<lambda>n name. None)\<rparr>"

text \<open>The demo world after the refresh pass made at start-up.\<close>

definition started :: sys where
  "started = snd (update_cache demo_env init_sys)"

text \<open>
  The same world with a clock that reads 0 first and then stays some 634 years later,
  one microsecond short of \<open>2 \<cdot> 10\<^sup>1\<^sup>0\<close> seconds, and the state after its first pass.
\<close>

definition far_env :: env where
  "far_env = demo_env\<lparr>now_at := (\<lambda>n. if n = 0 then 0 else 19999999999999999)\<rparr>"

definition far_started :: sys where
  "far_started = snd (update_cache far_env init_sys)"

section \<open>Basic facts\<close>

lemma entry_overwrite:
  "(e::entry)\<lparr>data := v, last_updated := x\<rparr> = \<lparr>data = v, last_updated = x\<rparr>"
  by (cases e) simp

lemma assign_entry_Some:
  "cache s k = Some e \<Longrightarrow>
   assign_entry ev k v s =
     (Inr (), s\<lparr>cache := (cache s)(k \<mapsto> \<lparr>data = v, last_updated = Some (now_at ev (nclock s))\<rparr>),
               nclock := Suc (nclock s)\<rparr>)"
  by (simp add: assign_entry_def set_data_def set_last_updated_def datetime_now_def entry_overwrite)

lemma assign_entry_None:
  "cache s k = None \<Longrightarrow> assign_entry ev k v s = (Inl (KeyError k), s)"
  by (simp add: assign_entry_def set_data_def)

lemma is_cache_valid_eq:
  "is_cache_valid ev ttl k s =
     (case cache s k of
        None \<Rightarrow> (Inr False, s)
      | Some e \<Rightarrow>
          (case last_updated e of
             None \<Rightarrow> (Inr False, s)
           | Some t \<Rightarrow>
               if data e = JNull then (Inr False, s)
               else (Inr (total_seconds (now_at ev (nclock s) - t) < real_of_int ttl),
                     s\<lparr>nclock := Suc (nclock s)\<rparr>)))"
  by (auto simp add: is_cache_valid_def bindE_def returnE_def raiseE_def read_entry_def
        cache_get_def datetime_now_def dom_def split: option.splits)

lemma cache_put_Some:
  "c k = Some e \<Longrightarrow> cache_put c k v t = Inr (c(k \<mapsto> \<lparr>data = v, last_updated = Some t\<rparr>))"
  by (simp add: cache_put_def set_data_def set_last_updated_def entry_overwrite)

lemma cache_put_None: "c k = None \<Longrightarrow> cache_put c k v t = Inl (KeyError k)"
  by (simp add: cache_put_def set_data_def)

lemma cache_ok_init: "cache_ok init_cache"
  by (simp add: cache_ok_def init_cache_def empty_entry_def paired_def split: if_splits)


lemma rhe_le: "q \<le> real_of_int n \<Longrightarrow> round_half_even q \<le> n"
proof -
  assume a: "q \<le> real_of_int n"
  have f: "\<lfloor>q\<rfloor> \<le> n" using a by (simp add: floor_le_iff)
  show ?thesis
  proof (cases "\<lfloor>q\<rfloor> = n")
    case True
    then have "q - real_of_int \<lfloor>q\<rfloor> \<le> 0" using a by simp
    then show ?thesis using True by (simp add: round_half_even_def Let_def)
  next
    case False
    then have "\<lfloor>q\<rfloor> + 1 \<le> n" using f by simp
    then show ?thesis using f by (simp add: round_half_even_def Let_def)
  qed
qed

lemma rhe_ge: "real_of_int n \<le> q \<Longrightarrow> n \<le> round_half_even q"
proof -
  assume a: "real_of_int n \<le> q"
  have f: "n \<le> \<lfloor>q\<rfloor>" using a by (simp add: le_floor_iff)
  then show ?thesis by (simp add: round_half_even_def Let_def)
qed

lemma P_add: "(2::real) powi (a + b) = 2 powi a * 2 powi b"
  by (simp add: power_int_add)

lemma P_split: "(2::real) powi a = 2 powi (a - b) * 2 powi b"
  using P_add[of "a - b" b] by simp

lemma scale_bounds:
  assumes "d \<noteq> 0"
  shows "2 powi (52 + float_scale d) * 1000000 \<le> \<bar>real_of_int d\<bar>"
    and "\<bar>real_of_int d\<bar> < 2 powi (53 + float_scale d) * 1000000"
proof -
  define a where "a = \<bar>d\<bar>"
  define la where "la = bitlen a"
  define e0 where "e0 = la - 20"
  have a0: "0 < a" using assms by (simp add: a_def)
  have la1: "1 \<le> la" using a0 bitlen_eq_zero_iff[of a] bitlen_nonneg[of a] by (simp add: la_def)
  have b: "2 ^ nat (la - 1) \<le> a" "a < 2 ^ nat la"
    using bitlen_bounds[OF a0] by (simp_all add: la_def)
  have "real_of_int (2 ^ nat (la - 1)) = 2 powi (la - 1)"
    using la1 by (simp add: power_int_def)
  then have lo: "2 powi (la - 1) \<le> real_of_int a" using b(1) by (metis of_int_le_iff)
  have "real_of_int (2 ^ nat la) = 2 powi la"
    using la1 by (simp add: power_int_def)
  then have hi: "real_of_int a < 2 powi la" using b(2) by (metis of_int_less_iff)
  have eq1: "la - 1 - 20 = e0 - 1" and eq2: "la - 19 = e0 + 1" by (simp_all add: e0_def)
  have s1: "(2::real) powi (la - 1) = 2 powi (e0 - 1) * 1048576"
    using P_split[of "la - 1" 20] unfolding eq1 by simp
  have m1: "(2::real) powi (e0 - 1) * 1000000 \<le> 2 powi (e0 - 1) * 1048576"
    by (rule mult_left_mono) simp_all
  have lo': "2 powi (e0 - 1) * 1000000 \<le> real_of_int a"
    using m1 lo s1 by linarith
  have s2: "(2::real) powi la = 2 powi (e0 + 1) * 524288"
    using P_split[of la 19] unfolding eq2 by simp
  have m2: "(2::real) powi (e0 + 1) * 524288 \<le> 2 powi (e0 + 1) * 1000000"
    by (rule mult_left_mono) simp_all
  have hi': "real_of_int a < 2 powi (e0 + 1) * 1000000"
    using m2 hi s2 by linarith
  have ra: "\<bar>real_of_int d\<bar> = real_of_int a" by (simp add: a_def)
  show "2 powi (52 + float_scale d) * 1000000 \<le> \<bar>real_of_int d\<bar>"
  proof (cases "1000000 * 2 powi e0 \<le> real_of_int a")
    case True
    then have "float_scale d = e0 - 52"
      by (simp add: float_scale_def Let_def e0_def la_def a_def)
    then show ?thesis using True ra by (simp add: mult.commute)
  next
    case False
    then have "float_scale d = e0 - 1 - 52"
      by (simp add: float_scale_def Let_def e0_def la_def a_def)
    then show ?thesis using lo' ra by simp
  qed
  show "\<bar>real_of_int d\<bar> < 2 powi (53 + float_scale d) * 1000000"
  proof (cases "1000000 * 2 powi e0 \<le> real_of_int a")
    case True
    then have "float_scale d = e0 - 52"
      by (simp add: float_scale_def Let_def e0_def la_def a_def)
    then show ?thesis using hi' ra by (simp add: add.commute)
  next
    case False
    then have "float_scale d = e0 - 1 - 52"
      by (simp add: float_scale_def Let_def e0_def la_def a_def)
    then show ?thesis using False ra by (simp add: mult.commute)
  qed
qed


lemma double_cases:
  assumes "is_double y"
  shows "(\<exists>n. y = real_of_int n * 2 powi k) \<or> \<bar>y\<bar> < 2 powi (52 + k)"
proof -
  from assms obtain M j where M: "\<bar>M\<bar> < 2 ^ 53" and y: "y = real_of_int M * 2 powi j"
    unfolding is_double_def by blast
  show ?thesis
  proof (cases "k \<le> j")
    case True
    have "(2::real) powi j = 2 powi (j - k) * 2 powi k" by (simp add: P_add[symmetric])
    moreover have "(2::real) powi (j - k) = real_of_int (2 ^ nat (j - k))"
      using True by (simp add: power_int_def)
    ultimately have "y = real_of_int (M * 2 ^ nat (j - k)) * 2 powi k"
      using y by simp
    then show ?thesis by blast
  next
    case False
    then have jk: "j \<le> k - 1" by simp
    have "(2::real) powi j \<le> 2 powi (k - 1)"
      using jk by (intro power_int_increasing) simp_all
    have p: "(0::real) < 2 powi j" by simp
    have "real_of_int \<bar>M\<bar> < 2 ^ 53" using M by (metis of_int_less_iff of_int_numeral of_int_power)
    then have "real_of_int \<bar>M\<bar> * 2 powi j < 2 ^ 53 * 2 powi j"
      using p by (simp only: mult_less_cancel_right_pos)
    also have "\<dots> \<le> 2 ^ 53 * 2 powi (k - 1)"
      using \<open>(2::real) powi j \<le> 2 powi (k - 1)\<close> by simp
    also have "\<dots> = 2 powi (52 + k)" using P_split[of "52 + k" "k - 1"] by simp
    finally have "real_of_int \<bar>M\<bar> * 2 powi j < 2 powi (52 + k)" .
    moreover have "\<bar>y\<bar> = real_of_int \<bar>M\<bar> * 2 powi j"
      using y p by (simp add: abs_mult)
    ultimately show ?thesis by simp
  qed
qed

lemma total_seconds_sign:
  assumes "d \<noteq> 0"
  shows "0 < d \<Longrightarrow> 2 powi (52 + float_scale d) \<le> total_seconds d"
    and "d < 0 \<Longrightarrow> total_seconds d \<le> - (2 powi (52 + float_scale d))"
proof -
  define k where "k = float_scale d"
  define q where "q = real_of_int d / (1000000 * 2 powi k)"
  have pk: "(0::real) < 2 powi k" by simp
  have ts: "total_seconds d = real_of_int (round_half_even q) * 2 powi k"
    using assms by (simp add: total_seconds_def q_def k_def)
  have p52: "(2::real) powi (52 + k) = 2 ^ 52 * 2 powi k" by (simp add: P_add)
  have lo: "2 ^ 52 * 2 powi k * 1000000 \<le> \<bar>real_of_int d\<bar>"
    using scale_bounds(1)[OF assms] p52 by (simp add: k_def)
  {
    assume pos: "0 < d"
    have "2 ^ 52 * (1000000 * 2 powi k) \<le> real_of_int d" using lo pos by (simp add: mult_ac)
    then have "2 ^ 52 \<le> q" unfolding q_def using pk by (simp add: pos_le_divide_eq)
    then have "real_of_int (2 ^ 52) \<le> q" by simp
    then have "2 ^ 52 \<le> round_half_even q" by (rule rhe_ge)
    then have "real_of_int (2 ^ 52) \<le> real_of_int (round_half_even q)" by (simp only: of_int_le_iff)
    then have "real_of_int (2 ^ 52) * 2 powi k \<le> real_of_int (round_half_even q) * 2 powi k"
      by (rule mult_right_mono) simp
    then show "2 powi (52 + float_scale d) \<le> total_seconds d"
      using ts p52 by (simp add: k_def)
  }
  {
    assume neg: "d < 0"
    have "2 ^ 52 * (1000000 * 2 powi k) \<le> - real_of_int d" using lo neg by (simp add: mult_ac)
    then have "real_of_int d \<le> - (2 ^ 52) * (1000000 * 2 powi k)" by simp
    then have "q \<le> - (2 ^ 52)" unfolding q_def using pk by (simp add: pos_divide_le_eq)
    then have "q \<le> real_of_int (- (2 ^ 52))" by simp
    then have "round_half_even q \<le> - (2 ^ 52)" by (rule rhe_le)
    then have "real_of_int (round_half_even q) \<le> real_of_int (- (2 ^ 52))" by (simp only: of_int_le_iff)
    then have "real_of_int (round_half_even q) * 2 powi k \<le> real_of_int (- (2 ^ 52)) * 2 powi k"
      by (rule mult_right_mono) simp
    then show "total_seconds d \<le> - (2 powi (52 + float_scale d))"
      using ts p52 by (simp add: k_def)
  }
qed

lemma total_seconds_le:
  assumes "is_double y" and "real_of_int d / 1000000 \<le> y"
  shows "total_seconds d \<le> y"
proof (cases "d = 0")
  case True
  then show ?thesis using assms(2) by (simp add: total_seconds_def)
next
  case False
  define k where "k = float_scale d"
  define q where "q = real_of_int d / (1000000 * 2 powi k)"
  have pk: "(0::real) < 2 powi k" by simp
  have ts: "total_seconds d = real_of_int (round_half_even q) * 2 powi k"
    using False by (simp add: total_seconds_def q_def k_def)
  from double_cases[OF assms(1), of k] show ?thesis
  proof
    assume "\<exists>n. y = real_of_int n * 2 powi k"
    then obtain n where n: "y = real_of_int n * 2 powi k" by blast
    have "q = (real_of_int d / 1000000) / 2 powi k" by (simp add: q_def)
    also have "\<dots> \<le> y / 2 powi k" by (rule divide_right_mono[OF assms(2)]) simp
    also have "\<dots> = real_of_int n" using n pk by simp
    finally have "round_half_even q \<le> n" by (rule rhe_le)
    then have "real_of_int (round_half_even q) \<le> real_of_int n" by (simp only: of_int_le_iff)
    then show ?thesis using ts n pk by simp
  next
    assume small: "\<bar>y\<bar> < 2 powi (52 + k)"
    have "\<not> 0 < d"
    proof
      assume pos: "0 < d"
      have "2 powi (52 + k) * 1000000 \<le> real_of_int d"
        using scale_bounds(1)[OF False] pos by (simp add: k_def)
      then have "2 powi (52 + k) \<le> real_of_int d / 1000000" by (simp add: pos_le_divide_eq)
      then show False using assms(2) small by linarith
    qed
    then have "d < 0" using False by simp
    then have "total_seconds d \<le> - (2 powi (52 + k))"
      using total_seconds_sign(2)[OF False] by (simp add: k_def)
    then show ?thesis using small by linarith
  qed
qed

lemma total_seconds_ge:
  assumes "is_double y" and "y \<le> real_of_int d / 1000000"
  shows "y \<le> total_seconds d"
proof (cases "d = 0")
  case True
  then show ?thesis using assms(2) by (simp add: total_seconds_def)
next
  case False
  define k where "k = float_scale d"
  define q where "q = real_of_int d / (1000000 * 2 powi k)"
  have pk: "(0::real) < 2 powi k" by simp
  have ts: "total_seconds d = real_of_int (round_half_even q) * 2 powi k"
    using False by (simp add: total_seconds_def q_def k_def)
  from double_cases[OF assms(1), of k] show ?thesis
  proof
    assume "\<exists>n. y = real_of_int n * 2 powi k"
    then obtain n where n: "y = real_of_int n * 2 powi k" by blast
    have "real_of_int n = y / 2 powi k" using n pk by simp
    also have "\<dots> \<le> (real_of_int d / 1000000) / 2 powi k"
      by (rule divide_right_mono[OF assms(2)]) simp
    also have "\<dots> = q" by (simp add: q_def)
    finally have "n \<le> round_half_even q" by (rule rhe_ge)
    then have "real_of_int n \<le> real_of_int (round_half_even q)" by (simp only: of_int_le_iff)
    then show ?thesis using ts n pk by simp
  next
    assume small: "\<bar>y\<bar> < 2 powi (52 + k)"
    have "\<not> d < 0"
    proof
      assume neg: "d < 0"
      have "2 powi (52 + k) * 1000000 \<le> - real_of_int d"
        using scale_bounds(1)[OF False] neg by (simp add: k_def)
      then have "real_of_int d / 1000000 \<le> - (2 powi (52 + k))"
        by (simp add: pos_divide_le_eq)
      then show False using assms(2) small by linarith
    qed
    then have "0 < d" using False by simp
    then have "2 powi (52 + k) \<le> total_seconds d"
      using total_seconds_sign(1)[OF False] by (simp add: k_def)
    then show ?thesis using small by linarith
  qed
qed

lemma total_seconds_less_iff:
  assumes "\<bar>ttl\<bar> < 2 ^ 33"
  shows "(total_seconds d < real_of_int ttl) = (real_of_int d / 1000000 < real_of_int ttl)"
proof
  assume l: "total_seconds d < real_of_int ttl"
  have "\<bar>ttl\<bar> < 2 ^ 53" using assms by simp
  then have "is_double (real_of_int ttl)"
    unfolding is_double_def by (intro exI[of _ ttl] exI[of _ 0]) simp
  then show "real_of_int d / 1000000 < real_of_int ttl"
    using total_seconds_ge[of "real_of_int ttl" d] l by linarith
next
  assume r: "real_of_int d / 1000000 < real_of_int ttl"
  then have "real_of_int d < real_of_int (ttl * 1000000)" by (simp add: pos_divide_less_eq)
  then have "d < ttl * 1000000" by (simp only: of_int_less_iff)
  then have "d \<le> ttl * 1000000 - 1" by simp
  then have "real_of_int d \<le> real_of_int (ttl * 1000000 - 1)" by (simp only: of_int_le_iff)
  then have x: "real_of_int d / 1000000 \<le> real_of_int ttl - 1 / 1000000"
    by (simp add: field_simps)
  define M where "M = ttl * 2 ^ 20 - 1"
  have "\<bar>M\<bar> < 2 ^ 53" using assms unfolding M_def by simp
  moreover have "real_of_int ttl - 1 / 2 ^ 20 = real_of_int M * 2 powi (- 20)"
    unfolding M_def by (simp add: power_int_minus field_simps)
  ultimately have "is_double (real_of_int ttl - 1 / 2 ^ 20)"
    unfolding is_double_def by blast
  moreover have "real_of_int d / 1000000 \<le> real_of_int ttl - 1 / 2 ^ 20"
    using x by simp
  ultimately have "total_seconds d \<le> real_of_int ttl - 1 / 2 ^ 20"
    by (rule total_seconds_le)
  then show "total_seconds d < real_of_int ttl" by simp
qed

lemma total_seconds_small:
  "\<bar>ttl\<bar> < 2 ^ 33 \<Longrightarrow> (total_seconds d < real_of_int ttl) = (d < ttl * 1000000)"
proof -
  assume b: "\<bar>ttl\<bar> < 2 ^ 33"
  have "(real_of_int d / 1000000 < real_of_int ttl) = (real_of_int d < real_of_int (ttl * 1000000))"
    by (simp add: pos_divide_less_eq)
  also have "\<dots> = (d < ttl * 1000000)" by (simp only: of_int_less_iff)
  finally show ?thesis using total_seconds_less_iff[OF b, of d] by simp
qed

lemma float_scale_far: "float_scale 19999999999999999 = - 18"
  by (simp add: float_scale_def compute_bitlen)

lemma total_seconds_far: "total_seconds 19999999999999999 = 20000000000"
  by (simp add: total_seconds_def float_scale_far round_half_even_def Let_def power_int_minus)

lemma assign_entry_ok:
  assumes "cache_ok (cache s)" and "truthy v" and "k \<in> list_keys \<longrightarrow> is_list v"
  shows "cache_ok (cache (snd (assign_entry ev k v s)))"
proof (cases "cache s k")
  case None
  then show ?thesis using assms by (simp add: assign_entry_None)
next
  case (Some e)
  have nn: "v \<noteq> JNull" using assms(2) by auto
  have d: "dom ((cache s)(k \<mapsto> \<lparr>data = v, last_updated = Some (now_at ev (nclock s))\<rparr>)) = dom (cache s)"
    using Some by auto
  show ?thesis
    using assms Some nn d
    by (auto simp add: assign_entry_Some cache_ok_def paired_def)
qed

lemma fetch_frame_cache: "fetch_frame k f \<Longrightarrow> cache (snd (f ev s)) = cache s"
  unfolding fetch_frame_def by blast

lemma fetch_frame_list:
  "fetch_frame k f \<Longrightarrow> fst (f ev s) = Inr v \<Longrightarrow> k \<in> list_keys \<Longrightarrow> is_list v"
  unfolding fetch_frame_def by blast

lemma frame_all_stocks: "fetch_frame k nepse_get_all_stocks"
  by (auto simp add: fetch_frame_def nepse_get_all_stocks_def log_call_def split: sum.splits)

lemma frame_opaque: "k \<notin> list_keys \<Longrightarrow> fetch_frame k (opaque_service name)"
  by (simp add: fetch_frame_def opaque_service_def log_call_def)

lemma is_list_top_n: "is_list (top_n h fb limit)"
  by (cases h) (auto simp add: top_fallback_def split: option.splits json.splits)

lemma frame_top: "fetch_frame k (\<lambda>ev. top_service name ev limit)"
  by (simp add: fetch_frame_def top_service_def log_call_def is_list_top_n)

lemma refresh_one_returns: "fst (refresh_one ev op s) = Inr ()"
  by (cases op) (simp add: refresh_one_def try_except_def returnE_def split: prod.splits sum.splits)

lemma for_each_refresh:
  "for_each (refresh_one ev) ops s = (Inr (), foldl (refresh_step ev) s ops)"
proof (induction ops arbitrary: s)
  case Nil
  then show ?case by (simp add: returnE_def)
next
  case (Cons a ops)
  have "refresh_one ev a s = (Inr (), refresh_step ev s a)"
    using refresh_one_returns[of ev a s] by (simp add: refresh_step_def prod_eq_iff)
  then show ?case using Cons.IH by (simp add: bindE_def)
qed

lemma update_cache_eq: "update_cache ev s = (Inr (), foldl (refresh_step ev) s cache_operations)"
  by (simp add: update_cache_def for_each_refresh)

lemma pass_prefix_eq: "pass_prefix ev s i = foldl (refresh_step ev) s (take i cache_operations)"
  by (simp add: pass_prefix_def for_each_refresh)

lemma refresh_one_ok:
  assumes "fetch_frame k f" and "cache_ok (cache s)"
  shows "cache_ok (cache (refresh_step ev s (k, f)))"
proof -
  obtain r s1 where fs: "f ev s = (r, s1)" by (cases "f ev s")
  have c1: "cache s1 = cache s" using fetch_frame_cache[OF assms(1), of ev s] fs by simp
  show ?thesis
  proof (cases r)
    case (Inl e)
    then show ?thesis using fs c1 assms(2)
      by (simp add: refresh_step_def refresh_one_def try_except_def bindE_def returnE_def)
  next
    case (Inr v)
    have l: "k \<in> list_keys \<longrightarrow> is_list v"
      using fetch_frame_list[OF assms(1), of ev s v] fs Inr by simp
    show ?thesis
    proof (cases "truthy v")
      case True
      have "cache_ok (cache (snd (assign_entry ev k v s1)))"
        using assign_entry_ok[of s1 v k ev] c1 assms(2) True l by simp
      then show ?thesis using fs Inr True
        by (cases "assign_entry ev k v s1")
           (auto simp add: refresh_step_def refresh_one_def try_except_def bindE_def returnE_def split: sum.splits)
    next
      case False
      then show ?thesis using fs Inr c1 assms(2)
        by (simp add: refresh_step_def refresh_one_def try_except_def bindE_def returnE_def)
    qed
  qed
qed

lemma list_keys_simps:
  "''stocks'' \<in> list_keys" "''top_gainers'' \<in> list_keys" "''top_losers'' \<in> list_keys"
  "''indices'' \<notin> list_keys" "''sectors'' \<notin> list_keys" "''merolagani_latest'' \<notin> list_keys"
  by (simp_all add: list_keys_def)

lemma cache_operations_frame: "(k, f) \<in> set cache_operations \<Longrightarrow> fetch_frame k f"
  by (auto simp add: cache_operations_def frame_all_stocks frame_opaque frame_top list_keys_simps
        nepse_get_indices_def nepse_get_sector_data_def merolagani_get_latest_market_data_def
        nepse_get_top_gainers_def nepse_get_top_losers_def)

lemma foldl_refresh_ok:
  "\<forall>(k, f) \<in> set ops. fetch_frame k f \<Longrightarrow> cache_ok (cache s) \<Longrightarrow>
   cache_ok (cache (foldl (refresh_step ev) s ops))"
proof (induction ops arbitrary: s)
  case Nil
  then show ?case by simp
next
  case (Cons a ops)
  obtain k f where a: "a = (k, f)" by (cases a)
  have "cache_ok (cache (refresh_step ev s (k, f)))"
    using Cons.prems a by (auto intro: refresh_one_ok)
  then show ?case using Cons.IH[of "refresh_step ev s (k, f)"] Cons.prems(1) a by simp
qed

lemma update_cache_ok: "cache_ok (cache s) \<Longrightarrow> cache_ok (cache (snd (update_cache ev s)))"
  unfolding update_cache_eq snd_conv
  by (rule foldl_refresh_ok) (auto intro: cache_operations_frame)



lemma ok_return: "Q x \<Longrightarrow> ok_prog (returnE x) Q"
  by (simp add: ok_prog_def returnE_def)

lemma ok_raise: "ok_prog (raiseE e) Q"
  by (simp add: ok_prog_def raiseE_def)

lemma ok_lift: "ok_prog (liftE r) (\<lambda>_. True)"
  by (simp add: ok_prog_def liftE_def)

lemma ok_bind:
  assumes "ok_prog m P" and "\<And>x. P x \<Longrightarrow> ok_prog (f x) Q"
  shows "ok_prog (bindE m f) Q"
  unfolding ok_prog_def
proof (intro allI impI)
  fix s :: sys assume s: "cache_ok (cache s)"
  obtain r s1 where ms: "m s = (r, s1)" by (cases "m s")
  have m1: "cache_ok (cache s1)" and m2: "\<forall>x. r = Inr x \<longrightarrow> P x"
    using assms(1) s ms by (auto simp add: ok_prog_def)
  show "cache_ok (cache (snd (bindE m f s))) \<and> (\<forall>x. fst (bindE m f s) = Inr x \<longrightarrow> Q x)"
  proof (cases r)
    case (Inl e)
    then show ?thesis using ms m1 by (simp add: bindE_def)
  next
    case (Inr x)
    then have "ok_prog (f x) Q" using m2 assms(2) by simp
    then show ?thesis using ms Inr m1 by (simp add: bindE_def ok_prog_def)
  qed
qed

lemma ok_try:
  assumes "ok_prog m Q" and "\<And>e. ok_prog (h e) Q"
  shows "ok_prog (try_except m h) Q"
  unfolding ok_prog_def
proof (intro allI impI)
  fix s :: sys assume s: "cache_ok (cache s)"
  obtain r s1 where ms: "m s = (r, s1)" by (cases "m s")
  have m1: "cache_ok (cache s1)" and m2: "\<forall>x. r = Inr x \<longrightarrow> Q x"
    using assms(1) s ms by (auto simp add: ok_prog_def)
  show "cache_ok (cache (snd (try_except m h s))) \<and> (\<forall>x. fst (try_except m h s) = Inr x \<longrightarrow> Q x)"
  proof (cases r)
    case (Inl e)
    have "ok_prog (h e) Q" by (rule assms(2))
    then show ?thesis using ms Inl m1 by (simp add: try_except_def ok_prog_def)
  next
    case (Inr x)
    then show ?thesis using ms m1 m2 by (simp add: try_except_def)
  qed
qed

lemma ok_now: "ok_prog (datetime_now ev) (\<lambda>_. True)"
  by (simp add: ok_prog_def datetime_now_def)

lemma ok_read: "ok_prog (read_entry k) (\<lambda>_. True)"
  by (simp add: ok_prog_def read_entry_def)

lemma ok_the_datetime: "ok_prog (the_datetime x) (\<lambda>_. True)"
  by (simp add: ok_prog_def the_datetime_def returnE_def raiseE_def split: option.splits)

lemma ok_valid: "ok_prog (is_cache_valid ev ttl k) (\<lambda>_. True)"
  by (simp add: ok_prog_def is_cache_valid_eq split: option.splits)

lemma ok_assign:
  "truthy v \<Longrightarrow> (k \<in> list_keys \<longrightarrow> is_list v) \<Longrightarrow> ok_prog (assign_entry ev k v) (\<lambda>_. True)"
  by (simp add: ok_prog_def assign_entry_ok)

lemma ok_fetch: "fetch_frame k f \<Longrightarrow> ok_prog (f ev) (\<lambda>v. k \<in> list_keys \<longrightarrow> is_list v)"
  unfolding ok_prog_def by (auto simp add: fetch_frame_cache dest: fetch_frame_list)

lemma ok_store:
  "k \<in> list_keys \<longrightarrow> is_list v \<Longrightarrow>
   ok_prog (if truthy v then assign_entry ev k v else returnE ()) (\<lambda>_. True)"
  by (simp add: ok_assign ok_return)

lemma ok_plain_handler:
  assumes "fetch_frame k f"
  shows "ok_prog (plain_handler k f ev ttl) (\<lambda>_. True)"
  unfolding plain_handler_def
  apply (rule ok_bind[OF ok_valid])
  apply (simp only: split: if_split)
  apply (intro conjI impI)
   apply (rule ok_bind[OF ok_read])
   apply (rule ok_bind[OF ok_the_datetime])
   apply (rule ok_return, simp)
  apply (rule ok_try)
   apply (rule ok_bind[OF ok_fetch[OF assms]])
   apply (rule ok_bind[OF ok_store], assumption)
   apply (rule ok_bind[OF ok_now])
   apply (rule ok_return, simp)
  apply (rule ok_return, simp)
  done

lemma ok_top_handler:
  assumes "\<And>limit. fetch_frame k (\<lambda>ev. f ev limit)"
  shows "ok_prog (top_handler k f ev ttl limit) (\<lambda>_. True)"
  unfolding top_handler_def
  apply (rule ok_bind[OF ok_valid])
  apply (simp only: split: if_split)
  apply (intro conjI impI)
   apply (rule ok_bind[OF ok_read])
   apply (rule ok_bind[OF ok_lift])
   apply (rule ok_bind[OF ok_the_datetime])
   apply (rule ok_return, simp)
  apply (rule ok_try)
   apply (rule ok_bind[OF ok_fetch[OF assms]])
   apply (rule ok_bind[OF ok_store], assumption)
   apply (rule ok_bind[OF ok_lift])
   apply (rule ok_bind[OF ok_now])
   apply (rule ok_return, simp)
  apply (rule ok_return, simp)
  done

lemma ok_get_stocks: "ok_prog (get_stocks ev ttl) (\<lambda>_. True)"
  unfolding get_stocks_def api_error_handler_def
  apply (rule ok_try)
   apply (rule ok_bind[OF ok_valid])
   apply (simp only: split: if_split)
   apply (intro conjI impI)
    apply (rule ok_bind[OF ok_read])
    apply (rule ok_bind[OF ok_the_datetime])
    apply (rule ok_bind[OF ok_lift])
    apply (rule ok_return, simp)
   apply (rule ok_bind[OF ok_fetch[OF frame_all_stocks[of "''stocks''"]]])
   apply (simp only: split: if_split)
   apply (intro conjI impI)
    apply (rule ok_bind[OF ok_now])
    apply (rule ok_return, simp)
   apply (rule ok_bind[OF ok_assign])
     apply simp
    apply simp
   apply (rule ok_bind[OF ok_read])
   apply (rule ok_bind[OF ok_the_datetime])
   apply (rule ok_bind[OF ok_lift])
   apply (rule ok_return, simp)
  apply (rule ok_bind[OF ok_now])
  apply (rule ok_return, simp)
  done

lemma ok_progD: "ok_prog m Q \<Longrightarrow> cache_ok (cache s) \<Longrightarrow> cache_ok (cache (snd (m s)))"
  by (simp add: ok_prog_def)

lemma reachable_cache_ok: "reachable ev ttl s \<Longrightarrow> cache_ok (cache s)"
proof (induction rule: reachable.induct)
  case start
  then show ?case by (simp add: init_sys_def cache_ok_init)
next
  case (refresh s)
  then show ?case by (simp add: update_cache_ok)
next
  case (stocks s)
  show ?case by (rule ok_progD[OF ok_get_stocks stocks.IH])
next
  case (indices s)
  then show ?case unfolding get_indices_def nepse_get_indices_def
    by (intro ok_progD[OF ok_plain_handler] frame_opaque) (simp_all add: list_keys_simps)
next
  case (top_gainers s limit)
  then show ?case unfolding get_top_gainers_def nepse_get_top_gainers_def
    by (intro ok_progD[OF ok_top_handler] frame_top)
next
  case (top_losers s limit)
  then show ?case unfolding get_top_losers_def nepse_get_top_losers_def
    by (intro ok_progD[OF ok_top_handler] frame_top)
next
  case (sectors s)
  then show ?case unfolding get_sectors_def nepse_get_sector_data_def
    by (intro ok_progD[OF ok_plain_handler] frame_opaque) (simp_all add: list_keys_simps)
next
  case (merolagani_latest s)
  then show ?case unfolding get_merolagani_latest_def merolagani_get_latest_market_data_def
    by (intro ok_progD[OF ok_plain_handler] frame_opaque) (simp_all add: list_keys_simps)
qed


lemma demo_pass:
  "snd (update_cache demo_env init_sys) =
     \<lparr>cache = init_cache
        (''indices'' \<mapsto> \<lparr>data = JList [JStr ''NEPSE''], last_updated = Some 0\<rparr>,
         ''top_gainers'' \<mapsto> \<lparr>data = JList [JNum 1, JNum 2, JNum 3], last_updated = Some 1000000\<rparr>,
         ''top_losers'' \<mapsto> \<lparr>data = JList [JNum 1, JNum 2, JNum 3], last_updated = Some 2000000\<rparr>),
      nclock = 3,
      fetch_log = refresh_calls\<rparr>"
  by (simp add: update_cache_eq cache_operations_def refresh_step_def refresh_one_def try_except_def bindE_def
        returnE_def nepse_get_all_stocks_def nepse_get_indices_def nepse_get_sector_data_def
        merolagani_get_latest_market_data_def nepse_get_top_gainers_def nepse_get_top_losers_def
        opaque_service_def top_service_def log_call_def demo_env_def init_sys_def
        assign_entry_def set_data_def set_last_updated_def datetime_now_def init_cache_def
        empty_entry_def slice_to_def refresh_calls_def)

section \<open>Facts about a refresh pass\<close>

lemma fetch_frame_nclock: "fetch_frame k f \<Longrightarrow> nclock (snd (f ev s)) = nclock s"
  unfolding fetch_frame_def by blast

lemma assign_entry_log: "fetch_log (snd (assign_entry ev k v s)) = fetch_log s"
  by (cases "cache s k") (simp_all add: assign_entry_None assign_entry_Some)

lemma refresh_one_log: "fetch_log (refresh_step ev s (k, f)) = fetch_log (snd (f ev s))"
proof -
  obtain r s1 where fs: "f ev s = (r, s1)" by (cases "f ev s")
  show ?thesis
  proof (cases r)
    case (Inl e)
    then show ?thesis using fs by (simp add: refresh_step_def refresh_one_def try_except_def bindE_def returnE_def)
  next
    case (Inr v)
    obtain r2 s2 where a: "assign_entry ev k v s1 = (r2, s2)" by (cases "assign_entry ev k v s1")
    have "fetch_log s2 = fetch_log s1" using assign_entry_log[of ev k v s1] a by simp
    then show ?thesis using fs Inr a
      by (cases r2) (simp_all add: refresh_step_def refresh_one_def try_except_def bindE_def returnE_def)
  qed
qed

lemma service_logs:
  "fetch_log (snd (nepse_get_all_stocks ev s)) = fetch_log s @ [(''get_all_stocks'', None)]"
  "fetch_log (snd (nepse_get_indices ev s)) = fetch_log s @ [(''get_indices'', None)]"
  "fetch_log (snd (nepse_get_top_gainers ev limit s)) = fetch_log s @ [(''get_top_gainers'', Some limit)]"
  "fetch_log (snd (nepse_get_top_losers ev limit s)) = fetch_log s @ [(''get_top_losers'', Some limit)]"
  "fetch_log (snd (nepse_get_sector_data ev s)) = fetch_log s @ [(''get_sector_data'', None)]"
  "fetch_log (snd (merolagani_get_latest_market_data ev s)) =
     fetch_log s @ [(''get_latest_market_data'', None)]"
  by (simp_all add: nepse_get_all_stocks_def nepse_get_indices_def nepse_get_top_gainers_def
        nepse_get_top_losers_def nepse_get_sector_data_def merolagani_get_latest_market_data_def
        opaque_service_def top_service_def log_call_def)

lemma update_cache_log: "fetch_log (snd (update_cache ev s)) = fetch_log s @ refresh_calls"
  by (simp add: update_cache_eq cache_operations_def refresh_one_log service_logs refresh_calls_def)

lemma refresh_one_failure:
  assumes "fetch_frame k f"
    and "fst (f ev s) = Inl e \<or> (fst (f ev s) = Inr v \<and> \<not> truthy v)"
  shows "cache (refresh_step ev s (k, f)) = cache s"
proof -
  obtain r s1 where fs: "f ev s = (r, s1)" by (cases "f ev s")
  have c1: "cache s1 = cache s" using fetch_frame_cache[OF assms(1), of ev s] fs by simp
  show ?thesis using assms(2) fs c1
    by (auto simp add: refresh_step_def refresh_one_def try_except_def bindE_def returnE_def)
qed

lemma refresh_one_success:
  assumes "fetch_frame k f" and "fst (f ev s) = Inr v" and "truthy v" and "k \<in> dom (cache s)"
  shows "cache (refresh_step ev s (k, f)) =
           (cache s)(k \<mapsto> \<lparr>data = v, last_updated = Some (now_at ev (nclock s))\<rparr>)"
proof -
  obtain r s1 where fs: "f ev s = (r, s1)" by (cases "f ev s")
  have c1: "cache s1 = cache s" using fetch_frame_cache[OF assms(1), of ev s] fs by simp
  have n1: "nclock s1 = nclock s" using fetch_frame_nclock[OF assms(1), of ev s] fs by simp
  obtain e where e: "cache s1 k = Some e" using assms(4) c1 by auto
  show ?thesis using assms(2,3) fs c1 n1
    by (simp add: refresh_step_def refresh_one_def try_except_def bindE_def returnE_def assign_entry_Some[OF e])
qed

lemma refresh_one_other:
  assumes "fetch_frame k' f" and "k' \<noteq> k"
  shows "cache (refresh_step ev s (k', f)) k = cache s k"
proof -
  obtain r s1 where fs: "f ev s = (r, s1)" by (cases "f ev s")
  have c1: "cache s1 = cache s" using fetch_frame_cache[OF assms(1), of ev s] fs by simp
  show ?thesis
  proof (cases r)
    case (Inl e)
    then show ?thesis using fs c1 by (simp add: refresh_step_def refresh_one_def try_except_def bindE_def returnE_def)
  next
    case (Inr v)
    have "cache (snd (assign_entry ev k' v s1)) k = cache s1 k"
      using assms(2) by (cases "cache s1 k'") (simp_all add: assign_entry_None assign_entry_Some)
    then show ?thesis using fs Inr c1
      by (cases "assign_entry ev k' v s1")
         (auto simp add: refresh_step_def refresh_one_def try_except_def bindE_def returnE_def split: sum.splits)
  qed
qed

lemma foldl_refresh_other:
  "\<forall>(k', f) \<in> set ops. fetch_frame k' f \<and> k' \<noteq> k \<Longrightarrow>
   cache (foldl (refresh_step ev) s ops) k = cache s k"
proof (induction ops arbitrary: s)
  case Nil
  then show ?case by simp
next
  case (Cons a ops)
  obtain k' f where a: "a = (k', f)" by (cases a)
  have "cache (refresh_step ev s (k', f)) k = cache s k"
    using Cons.prems a by (auto intro: refresh_one_other)
  then show ?case using Cons.IH[of "refresh_step ev s (k', f)"] Cons.prems a by simp
qed

lemma distinct_keys: "distinct (map fst cache_operations)"
  by (simp add: cache_operations_def)

lemma split_pass:
  assumes "i < length cache_operations"
  shows "snd (update_cache ev s) =
           foldl (refresh_step ev)
             (refresh_step ev (foldl (refresh_step ev) s (take i cache_operations))
                (cache_operations ! i))
             (drop (Suc i) cache_operations)"
proof -
  have "cache_operations = take i cache_operations @ cache_operations ! i # drop (Suc i) cache_operations"
    using assms by (rule id_take_nth_drop)
  then have "foldl (refresh_step ev) s cache_operations =
      foldl (refresh_step ev) s (take i cache_operations @ cache_operations ! i # drop (Suc i) cache_operations)"
    by simp
  then show ?thesis by (simp add: update_cache_eq)
qed

lemma other_keys:
  assumes "i < length cache_operations" and "cache_operations ! i = (k, f)"
  shows "\<forall>(k', f') \<in> set (take i cache_operations). fetch_frame k' f' \<and> k' \<noteq> k"
    and "\<forall>(k', f') \<in> set (drop (Suc i) cache_operations). fetch_frame k' f' \<and> k' \<noteq> k"
proof -
  have eq: "cache_operations = take i cache_operations @ (k, f) # drop (Suc i) cache_operations"
    using id_take_nth_drop[OF assms(1)] assms(2) by simp
  have "distinct (map fst (take i cache_operations @ (k, f) # drop (Suc i) cache_operations))"
    using distinct_keys eq by simp
  then have d1: "k \<notin> fst ` set (take i cache_operations)"
    and d2: "k \<notin> fst ` set (drop (Suc i) cache_operations)"
    by auto
  show "\<forall>(k', f') \<in> set (take i cache_operations). fetch_frame k' f' \<and> k' \<noteq> k"
    using d1 by (auto intro: cache_operations_frame dest: in_set_takeD simp add: rev_image_eqI)
  show "\<forall>(k', f') \<in> set (drop (Suc i) cache_operations). fetch_frame k' f' \<and> k' \<noteq> k"
    using d2 by (auto intro: cache_operations_frame dest: in_set_dropD simp add: rev_image_eqI)
qed

lemma pass_success:
  assumes "cache_ok (cache s)" and "i < length cache_operations"
    and "cache_operations ! i = (k, f)"
    and "fst (f ev (foldl (refresh_step ev) s (take i cache_operations))) = Inr v" and "truthy v"
  shows "cache (snd (update_cache ev s)) k =
           Some \<lparr>data = v,
                 last_updated = Some (now_at ev (nclock (foldl (refresh_step ev) s (take i cache_operations))))\<rparr>"
proof -
  let ?si = "foldl (refresh_step ev) s (take i cache_operations)"
  have fr: "fetch_frame k f"
    using assms(2,3) cache_operations_frame[of k f] nth_mem[OF assms(2)] by simp
  have "cache_ok (cache ?si)"
    using assms(1) by (rule foldl_refresh_ok[rotated]) (auto intro: cache_operations_frame dest: in_set_takeD)
  then have "dom (cache ?si) = dom init_cache" by (simp add: cache_ok_def)
  moreover have "k \<in> dom init_cache"
    using assms(2,3) nth_mem[OF assms(2)]
    by (auto simp add: cache_operations_def init_cache_def)
  ultimately have kd: "k \<in> dom (cache ?si)" by simp
  have "cache (snd (update_cache ev s)) k = cache (refresh_step ev ?si (k, f)) k"
    using split_pass[OF assms(2), of ev s] assms(3) foldl_refresh_other[OF other_keys(2)[OF assms(2,3)]]
    by simp
  then show ?thesis using refresh_one_success[OF fr assms(4,5) kd] by simp
qed

lemma pass_failure:
  assumes "i < length cache_operations" and "cache_operations ! i = (k, f)"
    and "fst (f ev (foldl (refresh_step ev) s (take i cache_operations))) = Inl e \<or>
         (fst (f ev (foldl (refresh_step ev) s (take i cache_operations))) = Inr v \<and> \<not> truthy v)"
  shows "cache (snd (update_cache ev s)) k = cache s k"
proof -
  let ?si = "foldl (refresh_step ev) s (take i cache_operations)"
  have fr: "fetch_frame k f"
    using assms(1,2) cache_operations_frame[of k f] nth_mem[OF assms(1)] by simp
  have "cache (snd (update_cache ev s)) k = cache (refresh_step ev ?si (k, f)) k"
    using split_pass[OF assms(1), of ev s] assms(2) foldl_refresh_other[OF other_keys(2)[OF assms(1,2)]]
    by simp
  also have "\<dots> = cache ?si k" using refresh_one_failure[OF fr assms(3)] by simp
  also have "\<dots> = cache s k" by (rule foldl_refresh_other[OF other_keys(1)[OF assms(1,2)]])
  finally show ?thesis .
qed

section \<open>Facts about the read handlers\<close>

lemma valid_True:
  assumes "fst (is_cache_valid ev ttl k s) = Inr True"
  shows "\<exists>e t. cache s k = Some e \<and> last_updated e = Some t \<and> data e \<noteq> JNull \<and>
           is_cache_valid ev ttl k s = (Inr True, s\<lparr>nclock := Suc (nclock s)\<rparr>)"
  using assms by (auto simp add: is_cache_valid_eq split: option.splits if_splits)

lemma valid_cache: "cache (snd (is_cache_valid ev ttl k s)) = cache s"
  by (simp add: is_cache_valid_eq split: option.splits)

lemma valid_log: "fetch_log (snd (is_cache_valid ev ttl k s)) = fetch_log s"
  by (simp add: is_cache_valid_eq split: option.splits)

lemma plain_handler_cached:
  assumes "is_cache_valid ev ttl k s = (Inr True, s1)" and "cache s1 k = Some e"
    and "last_updated e = Some t"
  shows "plain_handler k f ev ttl s =
           (Inr \<lparr>code = 200,
                 body = [(''success'', B True), (''data'', J (data e)), (''cached'', B True),
                         (''last_updated'', StrfTime t)]\<rparr>, s1)"
  using assms
  by (simp add: plain_handler_def bindE_def read_entry_def cache_get_def the_datetime_def returnE_def)

lemma top_handler_cached:
  assumes "is_cache_valid ev ttl k s = (Inr True, s1)" and "cache s1 k = Some e"
    and "last_updated e = Some t"
  shows "top_handler k f ev ttl limit s =
           (case py_slice (data e) limit of
              Inl x \<Rightarrow> (Inl x, s1)
            | Inr d \<Rightarrow>
                (Inr \<lparr>code = 200,
                      body = [(''success'', B True), (''data'', J d), (''cached'', B True),
                              (''last_updated'', StrfTime t)]\<rparr>, s1))"
  using assms
  by (simp add: top_handler_def bindE_def read_entry_def cache_get_def the_datetime_def returnE_def
      liftE_def split: sum.splits)

lemma get_stocks_cached:
  assumes "is_cache_valid ev ttl ''stocks'' s = (Inr True, s1)" and "cache s1 ''stocks'' = Some e"
    and "last_updated e = Some t"
  shows "get_stocks ev ttl s =
           (case py_len (data e) of
              Inl x \<Rightarrow>
                (Inr \<lparr>code = 500,
                      body = [(''status'', S ''error''), (''message'', StrOf x),
                              (''timestamp'', IsoFormat (now_at ev (nclock s1)))]\<rparr>,
                 s1\<lparr>nclock := Suc (nclock s1)\<rparr>)
            | Inr n \<Rightarrow>
                (Inr \<lparr>code = 200,
                      body = [(''status'', S ''success''), (''data'', J (data e)),
                              (''cached'', B True), (''last_updated'', IsoFormat t),
                              (''count'', N (int n))]\<rparr>, s1))"
  using assms
  by (simp add: get_stocks_def api_error_handler_def try_except_def bindE_def read_entry_def
      cache_get_def the_datetime_def returnE_def liftE_def datetime_now_def split: sum.splits)

lemma plain_handler_stale:
  assumes "is_cache_valid ev ttl k s = (Inr False, s1)"
  shows "plain_handler k f ev ttl s =
           (case f ev s1 of
              (Inl x, s2) \<Rightarrow>
                (Inr \<lparr>code = 500, body = [(''success'', B False), (''error'', StrOf x)]\<rparr>, s2)
            | (Inr v, s2) \<Rightarrow>
                (case (if truthy v then assign_entry ev k v s2 else (Inr (), s2)) of
                   (Inl x, s3) \<Rightarrow>
                     (Inr \<lparr>code = 500, body = [(''success'', B False), (''error'', StrOf x)]\<rparr>, s3)
                 | (Inr u, s3) \<Rightarrow>
                     (Inr \<lparr>code = 200,
                           body = [(''success'', B True), (''data'', J v), (''cached'', B False),
                                   (''last_updated'', StrfTime (now_at ev (nclock s3)))]\<rparr>,
                      s3\<lparr>nclock := Suc (nclock s3)\<rparr>)))"
  using assms
  by (simp add: plain_handler_def bindE_def try_except_def returnE_def datetime_now_def
      split: prod.splits sum.splits)

lemma top_handler_stale:
  assumes "is_cache_valid ev ttl k s = (Inr False, s1)"
  shows "top_handler k f ev ttl limit s =
           (case f ev limit s1 of
              (Inl x, s2) \<Rightarrow>
                (Inr \<lparr>code = 500, body = [(''success'', B False), (''error'', StrOf x)]\<rparr>, s2)
            | (Inr v, s2) \<Rightarrow>
                (case (if truthy v then assign_entry ev k v s2 else (Inr (), s2)) of
                   (Inl x, s3) \<Rightarrow>
                     (Inr \<lparr>code = 500, body = [(''success'', B False), (''error'', StrOf x)]\<rparr>, s3)
                 | (Inr u, s3) \<Rightarrow>
                     (case py_slice v limit of
                        Inl x \<Rightarrow>
                          (Inr \<lparr>code = 500,
                                body = [(''success'', B False), (''error'', StrOf x)]\<rparr>, s3)
                      | Inr d \<Rightarrow>
                          (Inr \<lparr>code = 200,
                                body = [(''success'', B True), (''data'', J d),
                                        (''cached'', B False),
                                        (''last_updated'', StrfTime (now_at ev (nclock s3)))]\<rparr>,
                           s3\<lparr>nclock := Suc (nclock s3)\<rparr>))))"
  using assms
  by (simp add: top_handler_def bindE_def try_except_def returnE_def datetime_now_def liftE_def
      split: prod.splits sum.splits)

lemma get_stocks_stale:
  assumes "is_cache_valid ev ttl ''stocks'' s = (Inr False, s1)"
    and "nepse_get_all_stocks ev s1 = (Inr (JList xs), s2)" and "xs \<noteq> []"
    and "cache s2 ''stocks'' = Some e"
  shows "get_stocks ev ttl s =
           (Inr \<lparr>code = 200,
                 body = [(''status'', S ''success''), (''data'', J (JList xs)),
                         (''cached'', B False), (''last_updated'', IsoFormat (now_at ev (nclock s2))),
                         (''count'', N (int (length xs)))]\<rparr>,
            s2\<lparr>cache := (cache s2)(''stocks'' \<mapsto>
                   \<lparr>data = JList xs, last_updated = Some (now_at ev (nclock s2))\<rparr>),
               nclock := Suc (nclock s2)\<rparr>)"
  using assms
  by (simp add: get_stocks_def api_error_handler_def try_except_def bindE_def read_entry_def
      cache_get_def the_datetime_def returnE_def liftE_def assign_entry_Some)

lemma get_stocks_stale_log:
  assumes "is_cache_valid ev ttl ''stocks'' s = (Inr False, s1)"
  shows "fetch_log (snd (get_stocks ev ttl s)) = fetch_log s1 @ [(''get_all_stocks'', None)]"
proof -
  obtain r s2 where f: "nepse_get_all_stocks ev s1 = (r, s2)" by (cases "nepse_get_all_stocks ev s1")
  have l: "fetch_log s2 = fetch_log s1 @ [(''get_all_stocks'', None)]"
    using service_logs(1)[of ev s1] f by simp
  show ?thesis
  proof (cases r)
    case (Inl x)
    then show ?thesis using assms f l
      by (simp add: get_stocks_def api_error_handler_def try_except_def bindE_def returnE_def
          datetime_now_def)
  next
    case (Inr v)
    show ?thesis
    proof (cases "truthy v")
      case False
      then show ?thesis using assms f l Inr
        by (simp add: get_stocks_def api_error_handler_def try_except_def bindE_def returnE_def
            datetime_now_def)
    next
      case True
      obtain r3 s3 where a: "assign_entry ev ''stocks'' v s2 = (r3, s3)"
        by (cases "assign_entry ev ''stocks'' v s2")
      have l3: "fetch_log s3 = fetch_log s2" using assign_entry_log[of ev "''stocks''" v s2] a by simp
      show ?thesis using assms f l Inr True a l3
        by (simp add: get_stocks_def api_error_handler_def try_except_def bindE_def returnE_def
            datetime_now_def read_entry_def the_datetime_def liftE_def raiseE_def
            split: sum.splits option.splits prod.splits)
    qed
  qed
qed

lemma key_in_init: "key_of c \<in> dom init_cache"
  by (cases c) (simp_all add: init_cache_def)

lemma fetch_of_frame: "fetch_frame (key_of c) (fetch_of c limit)"
  by (cases c)
     (simp_all add: frame_all_stocks frame_opaque frame_top list_keys_simps nepse_get_indices_def
        nepse_get_sector_data_def merolagani_get_latest_market_data_def nepse_get_top_gainers_def
        nepse_get_top_losers_def)

lemma fetch_of_log: "fetch_log (snd (fetch_of c limit ev s)) = fetch_log s @ [call_of c limit]"
  by (cases c) (simp_all add: service_logs)


lemma handle_cached:
  assumes iv: "is_cache_valid ev ttl (key_of c) s = (Inr True, s1)"
    and e: "cache s1 (key_of c) = Some e" and t: "last_updated e = Some t"
  shows "handle c ev ttl limit s =
    (case c of
       Stocks \<Rightarrow>
         (case py_len (data e) of
            Inl x \<Rightarrow>
              (Inr \<lparr>code = 500,
                    body = [(''status'', S ''error''), (''message'', StrOf x),
                            (''timestamp'', IsoFormat (now_at ev (nclock s1)))]\<rparr>,
               s1\<lparr>nclock := Suc (nclock s1)\<rparr>)
          | Inr n \<Rightarrow>
              (Inr \<lparr>code = 200,
                    body = [(''status'', S ''success''), (''data'', J (data e)),
                            (''cached'', B True), (''last_updated'', IsoFormat t),
                            (''count'', N (int n))]\<rparr>, s1))
     | TopGainers \<Rightarrow>
         (case py_slice (data e) limit of
            Inl x \<Rightarrow> (Inl x, s1)
          | Inr d \<Rightarrow>
              (Inr \<lparr>code = 200,
                    body = [(''success'', B True), (''data'', J d), (''cached'', B True),
                            (''last_updated'', StrfTime t)]\<rparr>, s1))
     | TopLosers \<Rightarrow>
         (case py_slice (data e) limit of
            Inl x \<Rightarrow> (Inl x, s1)
          | Inr d \<Rightarrow>
              (Inr \<lparr>code = 200,
                    body = [(''success'', B True), (''data'', J d), (''cached'', B True),
                            (''last_updated'', StrfTime t)]\<rparr>, s1))
     | _ \<Rightarrow>
         (Inr \<lparr>code = 200,
               body = [(''success'', B True), (''data'', J (data e)), (''cached'', B True),
                       (''last_updated'', StrfTime t)]\<rparr>, s1))"
proof (cases c)
  case Stocks
  have "get_stocks ev ttl s = (case py_len (data e) of
            Inl x \<Rightarrow>
              (Inr \<lparr>code = 500,
                    body = [(''status'', S ''error''), (''message'', StrOf x),
                            (''timestamp'', IsoFormat (now_at ev (nclock s1)))]\<rparr>,
               s1\<lparr>nclock := Suc (nclock s1)\<rparr>)
          | Inr n \<Rightarrow>
              (Inr \<lparr>code = 200,
                    body = [(''status'', S ''success''), (''data'', J (data e)),
                            (''cached'', B True), (''last_updated'', IsoFormat t),
                            (''count'', N (int n))]\<rparr>, s1))"
    using iv e Stocks by (intro get_stocks_cached[OF _ _ t]) simp_all
  then show ?thesis using Stocks by simp
next
  case Indices
  then show ?thesis using plain_handler_cached[OF _ _ t, of ev ttl "''indices''" s s1] iv e
    by (simp add: get_indices_def)
next
  case TopGainers
  then show ?thesis using top_handler_cached[OF _ _ t, of ev ttl "''top_gainers''" s s1] iv e
    by (simp add: get_top_gainers_def)
next
  case TopLosers
  then show ?thesis using top_handler_cached[OF _ _ t, of ev ttl "''top_losers''" s s1] iv e
    by (simp add: get_top_losers_def)
next
  case Sectors
  then show ?thesis using plain_handler_cached[OF _ _ t, of ev ttl "''sectors''" s s1] iv e
    by (simp add: get_sectors_def)
next
  case MerolaganiLatest
  then show ?thesis
    using plain_handler_cached[OF _ _ t, of ev ttl "''merolagani_latest''" s s1] iv e
    by (simp add: get_merolagani_latest_def)
qed

lemma plain_handler_stale_log:
  assumes "is_cache_valid ev ttl k s = (Inr False, s1)"
  shows "fetch_log (snd (plain_handler k f ev ttl s)) = fetch_log (snd (f ev s1))"
proof -
  obtain r s2 where f: "f ev s1 = (r, s2)" by (cases "f ev s1")
  show ?thesis
  proof (cases r)
    case (Inl x)
    then show ?thesis using f by (simp add: plain_handler_stale[OF assms])
  next
    case (Inr v)
    obtain r3 s3 where a: "assign_entry ev k v s2 = (r3, s3)" by (cases "assign_entry ev k v s2")
    have l3: "fetch_log s3 = fetch_log s2" using assign_entry_log[of ev k v s2] a by simp
    show ?thesis using f Inr a l3
      by (cases r3) (simp_all add: plain_handler_stale[OF assms])
  qed
qed

lemma top_handler_stale_log:
  assumes "is_cache_valid ev ttl k s = (Inr False, s1)"
  shows "fetch_log (snd (top_handler k f ev ttl limit s)) = fetch_log (snd (f ev limit s1))"
proof -
  obtain r s2 where f: "f ev limit s1 = (r, s2)" by (cases "f ev limit s1")
  show ?thesis
  proof (cases r)
    case (Inl x)
    then show ?thesis using f by (simp add: top_handler_stale[OF assms])
  next
    case (Inr v)
    obtain r3 s3 where a: "assign_entry ev k v s2 = (r3, s3)" by (cases "assign_entry ev k v s2")
    have l3: "fetch_log s3 = fetch_log s2" using assign_entry_log[of ev k v s2] a by simp
    show ?thesis using f Inr a l3
      by (cases r3) (simp_all add: top_handler_stale[OF assms] split: sum.splits)
  qed
qed

lemma plain_handler_stale_success:
  assumes "is_cache_valid ev ttl k s = (Inr False, s1)" and "f ev s1 = (Inr v, s2)"
    and "truthy v" and "cache s2 k = Some e"
  shows "plain_handler k f ev ttl s =
           (Inr \<lparr>code = 200,
                 body = [(''success'', B True), (''data'', J v), (''cached'', B False),
                         (''last_updated'', StrfTime (now_at ev (Suc (nclock s2))))]\<rparr>,
            s2\<lparr>cache := (cache s2)(k \<mapsto> \<lparr>data = v, last_updated = Some (now_at ev (nclock s2))\<rparr>),
               nclock := Suc (Suc (nclock s2))\<rparr>)"
  using assms(2,3) by (simp add: plain_handler_stale[OF assms(1)] assign_entry_Some[OF assms(4)])

lemma top_handler_stale_success:
  assumes "is_cache_valid ev ttl k s = (Inr False, s1)" and "f ev limit s1 = (Inr (JList xs), s2)"
    and "xs \<noteq> []" and "cache s2 k = Some e"
  shows "top_handler k f ev ttl limit s =
           (Inr \<lparr>code = 200,
                 body = [(''success'', B True), (''data'', J (JList (slice_to limit xs))),
                         (''cached'', B False),
                         (''last_updated'', StrfTime (now_at ev (Suc (nclock s2))))]\<rparr>,
            s2\<lparr>cache := (cache s2)(k \<mapsto> \<lparr>data = JList xs, last_updated = Some (now_at ev (nclock s2))\<rparr>),
               nclock := Suc (Suc (nclock s2))\<rparr>)"
  using assms(2,3) by (simp add: top_handler_stale[OF assms(1)] assign_entry_Some[OF assms(4)])

lemma handle_stale_log:
  assumes "is_cache_valid ev ttl (key_of c) s = (Inr False, s1)"
  shows "fetch_log (snd (handle c ev ttl limit s)) = fetch_log s1 @ [call_of c limit]"
proof (cases c)
  case Stocks
  then show ?thesis using get_stocks_stale_log[of ev ttl s s1] assms by simp
next
  case Indices
  then show ?thesis
    using plain_handler_stale_log[of ev ttl "''indices''" s s1 nepse_get_indices] assms
    by (simp add: get_indices_def service_logs)
next
  case TopGainers
  then show ?thesis
    using top_handler_stale_log[of ev ttl "''top_gainers''" s s1 nepse_get_top_gainers limit] assms
    by (simp add: get_top_gainers_def service_logs)
next
  case TopLosers
  then show ?thesis
    using top_handler_stale_log[of ev ttl "''top_losers''" s s1 nepse_get_top_losers limit] assms
    by (simp add: get_top_losers_def service_logs)
next
  case Sectors
  then show ?thesis
    using plain_handler_stale_log[of ev ttl "''sectors''" s s1 nepse_get_sector_data] assms
    by (simp add: get_sectors_def service_logs)
next
  case MerolaganiLatest
  then show ?thesis
    using plain_handler_stale_log[of ev ttl "''merolagani_latest''" s s1
        merolagani_get_latest_market_data] assms
    by (simp add: get_merolagani_latest_def service_logs)
qed

lemma handle_stale_success:
  assumes iv: "is_cache_valid ev ttl (key_of c) s = (Inr False, s1)"
    and f: "fetch_of c limit ev s1 = (Inr v, s2)" and tr: "truthy v"
    and e: "cache s2 (key_of c) = Some e"
  shows "cache (snd (handle c ev ttl limit s)) =
           (cache s2)(key_of c \<mapsto> \<lparr>data = v, last_updated = Some (now_at ev (nclock s2))\<rparr>) \<and>
         answers (fst (handle c ev ttl limit s)) (shown c limit v) False"
proof -
  have fr: "fetch_frame (key_of c) (fetch_of c limit)" by (rule fetch_of_frame)
  have lst: "key_of c \<in> list_keys \<Longrightarrow> \<exists>xs. v = JList xs \<and> xs \<noteq> []"
  proof -
    assume "key_of c \<in> list_keys"
    then have "is_list v" using fetch_frame_list[OF fr, of ev s1 v] f by simp
    then show ?thesis using tr by (cases v) simp_all
  qed
  show ?thesis
  proof (cases c)
    case Stocks
    then obtain xs where v: "v = JList xs" "xs \<noteq> []" using lst by (auto simp add: list_keys_def)
    show ?thesis
      using Stocks get_stocks_stale[of ev ttl s s1 xs s2 e] iv f e v
      by (simp add: answers_def)
  next
    case Indices
    then show ?thesis
      using plain_handler_stale_success[of ev ttl "''indices''" s s1 nepse_get_indices v s2 e]
        iv f tr e
      by (simp add: get_indices_def answers_def)
  next
    case TopGainers
    then obtain xs where v: "v = JList xs" "xs \<noteq> []" using lst by (auto simp add: list_keys_def)
    show ?thesis
      using TopGainers
        top_handler_stale_success[of ev ttl "''top_gainers''" s s1 nepse_get_top_gainers limit xs s2 e]
        iv f e v
      by (simp add: get_top_gainers_def answers_def)
  next
    case TopLosers
    then obtain xs where v: "v = JList xs" "xs \<noteq> []" using lst by (auto simp add: list_keys_def)
    show ?thesis
      using TopLosers
        top_handler_stale_success[of ev ttl "''top_losers''" s s1 nepse_get_top_losers limit xs s2 e]
        iv f e v
      by (simp add: get_top_losers_def answers_def)
  next
    case Sectors
    then show ?thesis
      using plain_handler_stale_success[of ev ttl "''sectors''" s s1 nepse_get_sector_data v s2 e]
        iv f tr e
      by (simp add: get_sectors_def answers_def)
  next
    case MerolaganiLatest
    then show ?thesis
      using plain_handler_stale_success[of ev ttl "''merolagani_latest''" s s1
          merolagani_get_latest_market_data v s2 e] iv f tr e
      by (simp add: get_merolagani_latest_def answers_def)
  qed
qed

lemma started_eq:
  "started =
     \<lparr>cache = init_cache
        (''indices'' \<mapsto> \<lparr>data = JList [JStr ''NEPSE''], last_updated = Some 0\<rparr>,
         ''top_gainers'' \<mapsto> \<lparr>data = JList [JNum 1, JNum 2, JNum 3], last_updated = Some 1000000\<rparr>,
         ''top_losers'' \<mapsto> \<lparr>data = JList [JNum 1, JNum 2, JNum 3], last_updated = Some 2000000\<rparr>),
      nclock = 3,
      fetch_log = refresh_calls\<rparr>"
  unfolding started_def by (rule demo_pass)

lemma started_reachable: "reachable demo_env ttl started"
  unfolding started_def by (rule reachable.refresh[OF reachable.start])

lemma far_started_eq:
  "far_started =
     \<lparr>cache = init_cache
        (''indices'' \<mapsto> \<lparr>data = JList [JStr ''NEPSE''], last_updated = Some 0\<rparr>,
         ''top_gainers'' \<mapsto>
           \<lparr>data = JList [JNum 1, JNum 2, JNum 3], last_updated = Some 19999999999999999\<rparr>,
         ''top_losers'' \<mapsto>
           \<lparr>data = JList [JNum 1, JNum 2, JNum 3], last_updated = Some 19999999999999999\<rparr>),
      nclock = 3,
      fetch_log = refresh_calls\<rparr>"
  by (simp add: far_started_def update_cache_eq cache_operations_def refresh_step_def
        refresh_one_def try_except_def bindE_def
        returnE_def nepse_get_all_stocks_def nepse_get_indices_def nepse_get_sector_data_def
        merolagani_get_latest_market_data_def nepse_get_top_gainers_def nepse_get_top_losers_def
        opaque_service_def top_service_def log_call_def far_env_def demo_env_def init_sys_def
        assign_entry_def set_data_def set_last_updated_def datetime_now_def init_cache_def
        empty_entry_def slice_to_def refresh_calls_def)

lemma started_gainers:
  "cache started ''top_gainers'' =
     Some \<lparr>data = JList [JNum 1, JNum 2, JNum 3], last_updated = Some 1000000\<rparr>"
  by (simp add: started_eq)

lemma started_gainers_valid:
  "is_cache_valid demo_env 300 ''top_gainers'' started = (Inr True, started\<lparr>nclock := 4\<rparr>)"
proof -
  have n: "nclock started = 3" by (simp add: started_eq)
  have "now_at demo_env 3 = 3000000" by (simp add: demo_env_def)
  then show ?thesis
    using total_seconds_small[of 300 2000000]
    by (simp add: is_cache_valid_eq started_gainers n)
qed

lemma started_gainers_stale:
  "is_cache_valid demo_env 1 ''top_gainers'' started = (Inr False, started\<lparr>nclock := 4\<rparr>)"
proof -
  have n: "nclock started = 3" by (simp add: started_eq)
  have "now_at demo_env 3 = 3000000" by (simp add: demo_env_def)
  then show ?thesis
    using total_seconds_small[of 1 2000000]
    by (simp add: is_cache_valid_eq started_gainers n)
qed

lemma started_gainers_read:
  "get_top_gainers demo_env 300 1 started =
     (Inr \<lparr>code = 200,
           body = [(''success'', B True), (''data'', J (JList [JNum 1])), (''cached'', B True),
                   (''last_updated'', StrfTime 1000000)]\<rparr>,
      started\<lparr>nclock := 4\<rparr>)"
proof -
  have e: "cache (started\<lparr>nclock := 4\<rparr>) ''top_gainers'' =
      Some \<lparr>data = JList [JNum 1, JNum 2, JNum 3], last_updated = Some 1000000\<rparr>"
    by (simp add: started_gainers)
  show ?thesis
    unfolding get_top_gainers_def
    by (simp add: top_handler_cached[OF started_gainers_valid e] slice_to_def)
qed

lemma init_gainers_invalid:
  "is_cache_valid demo_env ttl ''top_gainers'' init_sys = (Inr False, init_sys)"
  by (simp add: is_cache_valid_eq init_sys_def init_cache_def empty_entry_def)

lemma demo_top_gainers:
  "nepse_get_top_gainers demo_env limit s =
     (Inr (JList (slice_to limit [JNum 1, JNum 2, JNum 3])),
      log_call ''get_top_gainers'' (Some limit) s)"
  by (simp add: nepse_get_top_gainers_def top_service_def demo_env_def)

lemma init_gainers_read:
  assumes "slice_to limit [JNum 1, JNum 2, JNum 3] = xs" and "xs \<noteq> []"
  shows "get_top_gainers demo_env ttl limit init_sys =
     (Inr \<lparr>code = 200,
           body = [(''success'', B True), (''data'', J (JList (slice_to limit xs))),
                   (''cached'', B False), (''last_updated'', StrfTime 1000000)]\<rparr>,
      \<lparr>cache = init_cache(''top_gainers'' \<mapsto> \<lparr>data = JList xs, last_updated = Some 0\<rparr>),
       nclock = 2, fetch_log = [(''get_top_gainers'', Some limit)]\<rparr>)"
proof -
  have f: "nepse_get_top_gainers demo_env limit init_sys =
      (Inr (JList xs), log_call ''get_top_gainers'' (Some limit) init_sys)"
    using assms(1) by (simp add: demo_top_gainers)
  have e: "cache (log_call ''get_top_gainers'' (Some limit) init_sys) ''top_gainers'' =
      Some empty_entry"
    by (simp add: log_call_def init_sys_def init_cache_def)
  have n: "now_at demo_env 0 = 0" "now_at demo_env (Suc 0) = 1000000" by (simp_all add: demo_env_def)
  show ?thesis
    unfolding get_top_gainers_def
    by (subst top_handler_stale_success[where f = nepse_get_top_gainers,
            OF init_gainers_invalid f assms(2) e])
       (simp add: log_call_def init_sys_def n)
qed

section \<open>The claims\<close>

text \<open>
  Claim C1 says that the validity check returns true exactly when the seconds elapsed are
  strictly fewer than \<open>CACHE_TIMEOUT\<close>, whatever the timeout. The elapsed seconds are a
  float: with a timeout of \<open>2 \<cdot> 10\<^sup>1\<^sup>0\<close> seconds and an entry one microsecond younger than
  that, \<^verbatim>\<open>total_seconds()\<close> rounds up to the timeout and the check returns false.
\<close>

theorem is_cache_valid_counterexample:
  "fst (is_cache_valid far_env 20000000000 ''indices'' far_started) = Inr False \<and>
   stored_timestamp (cache far_started) ''indices'' = Some 0 \<and>
   now_at far_env (nclock far_started) = 19999999999999999 \<and>
   spec_is_valid 19999999999999999 (Some 0) 20000000000"
proof -
  have n: "nclock far_started = 3" by (simp add: far_started_eq)
  have c: "now_at far_env 3 = 19999999999999999" by (simp add: far_env_def)
  have e: "cache far_started ''indices'' =
      Some \<lparr>data = JList [JStr ''NEPSE''], last_updated = Some 0\<rparr>"
    by (simp add: far_started_eq)
  have v: "fst (is_cache_valid far_env 20000000000 ''indices'' far_started) = Inr False"
    by (simp add: is_cache_valid_eq e n c total_seconds_far)
  show ?thesis
    using v n c e by (simp add: stored_timestamp_def spec_is_valid_def)
qed

text \<open>
  Claim C1, amended. For a \<open>CACHE_TIMEOUT\<close> below \<open>2\<^sup>3\<^sup>3\<close> seconds in absolute value
  (some 272 years), in every state the process can reach and for every key,
  \<open>is_cache_valid\<close> returns without raising, and it returns true exactly when the entry
  has a last-updated timestamp and the seconds elapsed since then, at the clock reading
  of the call, are strictly fewer than \<open>CACHE_TIMEOUT\<close>; it returns false when the
  timestamp is absent (or the key has no entry).
\<close>

theorem is_cache_valid_freshness:
  assumes "reachable ev ttl s" and "\<bar>ttl\<bar> < 2 ^ 33"
  shows "fst (is_cache_valid ev ttl k s) =
           Inr (spec_is_valid (now_at ev (nclock s)) (stored_timestamp (cache s) k) ttl)"
proof (cases "cache s k")
  case None
  then show ?thesis
    by (simp add: is_cache_valid_eq spec_is_valid_def stored_timestamp_def)
next
  case (Some e)
  have "cache_ok (cache s)" using assms(1) by (rule reachable_cache_ok)
  then have "paired e" using Some by (simp add: cache_ok_def)
  then show ?thesis using Some
    by (auto simp add: is_cache_valid_eq spec_is_valid_def stored_timestamp_def paired_def
          total_seconds_less_iff[OF assms(2)] split: option.splits)
qed

theorem is_cache_valid_freshness_witness:
  "\<bar>300 :: int\<bar> < 2 ^ 33 \<and>
   fst (is_cache_valid demo_env 300 ''indices'' started) = Inr True \<and>
   stored_timestamp (cache started) ''indices'' = Some 0 \<and>
   now_at demo_env (nclock started) = 3000000 \<and>
   spec_is_valid 3000000 (Some 0) 300 \<and>
   fst (is_cache_valid demo_env 300 ''stocks'' started) = Inr False \<and>
   stored_timestamp (cache started) ''stocks'' = None"
proof -
  have r: "reachable demo_env 300 started" by (rule started_reachable)
  have h: "\<bar>300 :: int\<bar> < 2 ^ 33" by simp
  have a: "stored_timestamp (cache started) ''indices'' = Some 0"
    by (simp add: started_eq stored_timestamp_def)
  have b: "stored_timestamp (cache started) ''stocks'' = None"
    by (simp add: started_eq stored_timestamp_def init_cache_def empty_entry_def)
  have "nclock started = 3" by (simp add: started_eq)
  then have c: "now_at demo_env (nclock started) = 3000000"
    by (simp add: demo_env_def)
  have d: "spec_is_valid 3000000 (Some 0) 300"
    by (simp add: spec_is_valid_def)
  have e: "\<not> spec_is_valid 3000000 None 300"
    by (simp add: spec_is_valid_def)
  show ?thesis
    using is_cache_valid_freshness[OF r h, of "''indices''"]
      is_cache_valid_freshness[OF r h, of "''stocks''"] a b c d e
    by simp
qed

text \<open>
  Claim C9. In the initial cache and after any sequence of refresh passes and read
  requests, the data of every entry is \<^verbatim>\<open>None\<close> exactly when its last-updated
  timestamp is \<^verbatim>\<open>None\<close>.
\<close>

theorem data_iff_last_updated:
  assumes "reachable ev ttl s" and "cache s k = Some e"
  shows "(data e = JNull) = (last_updated e = None)"
proof -
  have "cache_ok (cache s)" using assms(1) by (rule reachable_cache_ok)
  then have "paired e" using assms(2) by (simp add: cache_ok_def)
  then show ?thesis by (simp add: paired_def)
qed

theorem data_iff_last_updated_witness:
  "cache (snd (update_cache demo_env init_sys)) ''indices'' =
     Some \<lparr>data = JList [JStr ''NEPSE''], last_updated = Some 0\<rparr> \<and>
   cache (snd (update_cache demo_env init_sys)) ''stocks'' = Some \<lparr>data = JNull, last_updated = None\<rparr> \<and>
   ((JList [JStr ''NEPSE''] = JNull) = (Some (0::int) = None)) \<and>
   ((JNull = JNull) = ((None :: time option) = None))"
proof -
  have r: "reachable demo_env 300 (snd (update_cache demo_env init_sys))"
    by (rule reachable.refresh[OF reachable.start])
  have a: "cache (snd (update_cache demo_env init_sys)) ''indices'' =
     Some \<lparr>data = JList [JStr ''NEPSE''], last_updated = Some 0\<rparr>"
    by (simp add: demo_pass)
  have b: "cache (snd (update_cache demo_env init_sys)) ''stocks'' = Some \<lparr>data = JNull, last_updated = None\<rparr>"
    by (simp add: demo_pass init_cache_def empty_entry_def)
  show ?thesis
    using data_iff_last_updated[OF r a] data_iff_last_updated[OF r b] a b by simp
qed


text \<open>
  Claim C8 says that the operations of the cache store fail with an error on a key outside
  the fixed set. The validity check does not: on the key \<open>bogus\<close> it returns false.
\<close>

theorem unknown_key_counterexample:
  "init_cache ''bogus'' = None \<and>
   is_cache_valid demo_env 300 ''bogus'' init_sys = (Inr False, init_sys)"
  by (simp add: is_cache_valid_eq init_sys_def init_cache_def)

text \<open>
  Claim C8, amended. For a key outside the cache, \<open>is_cache_valid\<close> returns false
  without raising and without touching the state; reading or writing the entry by
  subscript raises \<^verbatim>\<open>KeyError\<close> and leaves the state as it was.
\<close>

theorem unknown_key_is_invalid:
  assumes "k \<notin> dom (cache s)"
  shows "is_cache_valid ev ttl k s = (Inr False, s) \<and>
         cache_get (cache s) k = Inl (KeyError k) \<and>
         set_data (cache s) k v = Inl (KeyError k) \<and>
         set_last_updated (cache s) k t = Inl (KeyError k) \<and>
         assign_entry ev k v s = (Inl (KeyError k), s)"
proof -
  have n: "cache s k = None" using assms by (simp add: dom_def)
  show ?thesis
    using n by (simp add: is_cache_valid_eq cache_get_def set_data_def set_last_updated_def
        assign_entry_None)
qed

theorem unknown_key_is_invalid_witness:
  "''bogus'' \<notin> dom (cache init_sys) \<and>
   is_cache_valid demo_env 300 ''bogus'' init_sys = (Inr False, init_sys) \<and>
   cache_get (cache init_sys) ''bogus'' = Inl (KeyError ''bogus'') \<and>
   assign_entry demo_env ''bogus'' (JList [JNum 1]) init_sys = (Inl (KeyError ''bogus''), init_sys)"
proof -
  have h: "''bogus'' \<notin> dom (cache init_sys)"
    by (simp add: init_sys_def init_cache_def dom_def)
  show ?thesis
    using h unknown_key_is_invalid[OF h, of demo_env 300 "JList [JNum 1]" 0] by simp
qed

lemma assign_entry_put:
  "assign_entry ev k v s =
     (case cache_put (cache s) k v (now_at ev (nclock s)) of
        Inl e \<Rightarrow> (Inl e, s)
      | Inr c \<Rightarrow> (Inr (), s\<lparr>cache := c, nclock := Suc (nclock s)\<rparr>))"
  by (cases "cache s k") (simp_all add: assign_entry_None assign_entry_Some cache_put_None cache_put_Some)

text \<open>
  Claim C2 says that a put with an older timestamp is skipped. The two assignments compare
  nothing: after a put at time 10, a put at time 5 replaces the entry.
\<close>

theorem put_monotonicity_counterexample:
  "cache_put init_cache ''stocks'' (JList [JNum 1]) 10 =
     Inr (init_cache(''stocks'' \<mapsto> \<lparr>data = JList [JNum 1], last_updated = Some 10\<rparr>)) \<and>
   cache_put (init_cache(''stocks'' \<mapsto> \<lparr>data = JList [JNum 1], last_updated = Some 10\<rparr>))
       ''stocks'' (JList [JNum 2]) 5 =
     Inr (init_cache(''stocks'' \<mapsto> \<lparr>data = JList [JNum 2], last_updated = Some 5\<rparr>)) \<and>
   (init_cache(''stocks'' \<mapsto> \<lparr>data = JList [JNum 2], last_updated = Some 5\<rparr>)) ''stocks'' \<noteq>
   (init_cache(''stocks'' \<mapsto> \<lparr>data = JList [JNum 1], last_updated = Some 10\<rparr>)) ''stocks''"
  by (simp add: cache_put_def set_data_def set_last_updated_def init_cache_def empty_entry_def)

text \<open>
  Claim C2, amended. Puts are unconditional: after a put of \<open>v1\<close> at \<open>t1\<close>, a put of
  \<open>v2\<close> at \<open>t2\<close> on the same key succeeds and gives the cache that the second put
  alone would give, with the entry \<open>(v2, t2)\<close>, whatever the order of \<open>t1\<close> and \<open>t2\<close>.
\<close>

theorem put_last_write_wins:
  assumes "cache_put c k v1 t1 = Inr c1"
  shows "cache_put c1 k v2 t2 = cache_put c k v2 t2 \<and>
         (\<exists>c2. cache_put c1 k v2 t2 = Inr c2 \<and>
               c2 k = Some \<lparr>data = v2, last_updated = Some t2\<rparr>)"
proof (cases "c k")
  case None
  then show ?thesis using assms by (simp add: cache_put_None)
next
  case (Some e)
  then have c1: "c1 = c(k \<mapsto> \<lparr>data = v1, last_updated = Some t1\<rparr>)"
    using assms by (simp add: cache_put_Some)
  have "cache_put c1 k v2 t2 = Inr (c1(k \<mapsto> \<lparr>data = v2, last_updated = Some t2\<rparr>))"
    by (rule cache_put_Some[of c1 k "\<lparr>data = v1, last_updated = Some t1\<rparr>"]) (simp add: c1)
  then show ?thesis using Some c1 by (simp add: cache_put_Some)
qed

theorem put_last_write_wins_witness:
  "cache_put init_cache ''stocks'' (JList [JNum 1]) 10 =
     Inr (init_cache(''stocks'' \<mapsto> \<lparr>data = JList [JNum 1], last_updated = Some 10\<rparr>)) \<and>
   cache_put (init_cache(''stocks'' \<mapsto> \<lparr>data = JList [JNum 1], last_updated = Some 10\<rparr>))
       ''stocks'' (JList [JNum 2]) 5 =
     cache_put init_cache ''stocks'' (JList [JNum 2]) 5"
proof -
  have h: "cache_put init_cache ''stocks'' (JList [JNum 1]) 10 =
     Inr (init_cache(''stocks'' \<mapsto> \<lparr>data = JList [JNum 1], last_updated = Some 10\<rparr>))"
    by (simp add: cache_put_def set_data_def set_last_updated_def init_cache_def empty_entry_def)
  show ?thesis using h put_last_write_wins[OF h, of "JList [JNum 2]" 5] by simp
qed

text \<open>
  Claim C3. A refresh pass ends normally whatever the fetch functions do: an iteration
  whose fetch raises ends normally itself, so the pass calls the fetch function of every
  category once, in the order of the fixed list; and every category whose own fetch
  returns a non-empty result has, after the pass, that result as its entry, with the
  clock reading taken at its iteration, whether or not the fetch of another category
  raised.
\<close>

theorem refresh_pass_failure_isolation:
  assumes "reachable ev ttl s"
  shows "fst (update_cache ev s) = Inr () \<and>
         fetch_log (snd (update_cache ev s)) = fetch_log s @ refresh_calls \<and>
         (\<forall>i k f e. i < length cache_operations \<and> cache_operations ! i = (k, f) \<and>
              fst (f ev (pass_prefix ev s i)) = Inl e \<longrightarrow>
              fst (refresh_one ev (k, f) (pass_prefix ev s i)) = Inr () \<and>
              pass_prefix ev s (Suc i) = snd (f ev (pass_prefix ev s i))) \<and>
         (\<forall>i k f v. i < length cache_operations \<and> cache_operations ! i = (k, f) \<and>
              fst (f ev (pass_prefix ev s i)) = Inr v \<and> truthy v \<longrightarrow>
              cache (snd (update_cache ev s)) k =
                Some \<lparr>data = v, last_updated = Some (now_at ev (nclock (pass_prefix ev s i)))\<rparr>)"
proof -
  have ok: "cache_ok (cache s)" using assms by (rule reachable_cache_ok)
  have a: "fst (update_cache ev s) = Inr ()" by (simp add: update_cache_eq)
  have b: "fetch_log (snd (update_cache ev s)) = fetch_log s @ refresh_calls"
    by (rule update_cache_log)
  have c: "fst (refresh_one ev (k, f) (pass_prefix ev s i)) = Inr () \<and>
           pass_prefix ev s (Suc i) = snd (f ev (pass_prefix ev s i))"
    if "i < length cache_operations" and "cache_operations ! i = (k, f)"
      and "fst (f ev (pass_prefix ev s i)) = Inl e" for i k f e
  proof -
    have "take (Suc i) cache_operations = take i cache_operations @ [(k, f)]"
      using that(1,2) by (simp add: take_Suc_conv_app_nth)
    then have "pass_prefix ev s (Suc i) = refresh_step ev (pass_prefix ev s i) (k, f)"
      by (simp add: pass_prefix_eq)
    moreover have "refresh_step ev (pass_prefix ev s i) (k, f) = snd (f ev (pass_prefix ev s i))"
      using that(3)
      by (cases "f ev (pass_prefix ev s i)")
         (simp add: refresh_step_def refresh_one_def try_except_def bindE_def returnE_def)
    ultimately show ?thesis by (simp add: refresh_one_returns)
  qed
  have d: "cache (snd (update_cache ev s)) k =
      Some \<lparr>data = v, last_updated = Some (now_at ev (nclock (pass_prefix ev s i)))\<rparr>"
    if "i < length cache_operations" and "cache_operations ! i = (k, f)"
      and "fst (f ev (pass_prefix ev s i)) = Inr v" and "truthy v" for i k f v
    using pass_success[OF ok that(1,2), of ev v] that(3,4) by (simp add: pass_prefix_eq)
  show ?thesis using a b c d by blast
qed

lemma demo_stocks_raises:
  "fst (nepse_get_all_stocks demo_env s) = Inl (Exception ''upstream down'')"
  by (simp add: nepse_get_all_stocks_def demo_env_def)

lemma demo_prefix_1:
  "pass_prefix demo_env s (Suc 0) = log_call ''get_all_stocks'' None s"
  by (simp add: pass_prefix_eq cache_operations_def refresh_step_def refresh_one_def
      try_except_def bindE_def returnE_def nepse_get_all_stocks_def demo_env_def)

theorem refresh_pass_failure_isolation_witness:
  "fst (nepse_get_all_stocks demo_env (pass_prefix demo_env init_sys 0)) =
     Inl (Exception ''upstream down'') \<and>
   fst (refresh_one demo_env (''stocks'', nepse_get_all_stocks) (pass_prefix demo_env init_sys 0)) =
     Inr () \<and>
   fst (update_cache demo_env init_sys) = Inr () \<and>
   fetch_log (snd (update_cache demo_env init_sys)) = refresh_calls \<and>
   cache (snd (update_cache demo_env init_sys)) ''indices'' =
     Some \<lparr>data = JList [JStr ''NEPSE''], last_updated = Some 0\<rparr>"
proof -
  have r: "reachable demo_env 300 init_sys" by (rule reachable.start)
  have i0: "(0::nat) < length cache_operations"
    and op0: "cache_operations ! 0 = (''stocks'', nepse_get_all_stocks)"
    by (simp_all add: cache_operations_def)
  have f0: "fst (nepse_get_all_stocks demo_env (pass_prefix demo_env init_sys 0)) =
      Inl (Exception ''upstream down'')"
    by (rule demo_stocks_raises)
  have i: "(1::nat) < length cache_operations"
    and op: "cache_operations ! 1 = (''indices'', nepse_get_indices)"
    by (simp_all add: cache_operations_def)
  have p: "pass_prefix demo_env init_sys 1 = log_call ''get_all_stocks'' None init_sys"
    by (simp add: demo_prefix_1)
  have f: "fst (nepse_get_indices demo_env (pass_prefix demo_env init_sys 1)) = Inr (JList [JStr ''NEPSE''])"
    unfolding p
    by (simp add: nepse_get_indices_def opaque_service_def log_call_def init_sys_def demo_env_def)
  have t: "truthy (JList [JStr ''NEPSE''])" by simp
  have n: "now_at demo_env (nclock (pass_prefix demo_env init_sys 1)) = 0"
    unfolding p by (simp add: log_call_def init_sys_def demo_env_def)
  have l: "fetch_log init_sys = []" by (simp add: init_sys_def)
  note th = refresh_pass_failure_isolation[OF r]
  from th have a0: "fst (update_cache demo_env init_sys) = Inr ()" by blast
  from th have a: "fetch_log (snd (update_cache demo_env init_sys)) = fetch_log init_sys @ refresh_calls"
    by blast
  from th i0 op0 f0
  have c: "fst (refresh_one demo_env (''stocks'', nepse_get_all_stocks)
      (pass_prefix demo_env init_sys 0)) = Inr ()"
    by blast
  from th i op f t
  have b: "cache (snd (update_cache demo_env init_sys)) ''indices'' =
      Some \<lparr>data = JList [JStr ''NEPSE''],
            last_updated = Some (now_at demo_env (nclock (pass_prefix demo_env init_sys 1)))\<rparr>"
    by blast
  show ?thesis using a0 a b c f0 n l by simp
qed

text \<open>
  Claim C4. In an iteration of the refresh pass whose fetch raises or returns an empty or
  falsy result, the cache after the iteration is the cache before it; and when the
  iteration is number \<open>i\<close> of a pass, the entry of its category after the whole pass is
  the entry it had before the pass: data and timestamp are both untouched.
\<close>

theorem failed_fetch_keeps_entry:
  assumes "i < length cache_operations" and "cache_operations ! i = (k, f)"
    and "fst (f ev s) = Inl e \<or> (fst (f ev s) = Inr v \<and> \<not> truthy v)"
  shows "cache (snd (refresh_one ev (k, f) s)) = cache s \<and>
         (\<forall>s0. s = pass_prefix ev s0 i \<longrightarrow> cache (snd (update_cache ev s0)) k = cache s0 k)"
proof -
  have fr: "fetch_frame k f"
    using assms(1,2) cache_operations_frame[of k f] nth_mem[OF assms(1)] by simp
  have "cache (refresh_step ev s (k, f)) = cache s"
    using fr assms(3) by (rule refresh_one_failure)
  then have a: "cache (snd (refresh_one ev (k, f) s)) = cache s"
    by (simp add: refresh_step_def)
  have b: "cache (snd (update_cache ev s0)) k = cache s0 k" if "s = pass_prefix ev s0 i" for s0
    using pass_failure[OF assms(1,2), of ev s0 e v] assms(3) that by (simp add: pass_prefix_eq)
  show ?thesis using a b by simp
qed

theorem failed_fetch_keeps_entry_witness:
  "fst (nepse_get_indices demo_env (pass_prefix demo_env (snd (update_cache demo_env init_sys)) 1)) =
     Inl (Exception ''timeout'') \<and>
   cache (snd (update_cache demo_env init_sys)) ''indices'' =
     Some \<lparr>data = JList [JStr ''NEPSE''], last_updated = Some 0\<rparr> \<and>
   cache (snd (update_cache demo_env (snd (update_cache demo_env init_sys)))) ''indices'' =
     Some \<lparr>data = JList [JStr ''NEPSE''], last_updated = Some 0\<rparr>"
proof -
  have i: "(1::nat) < length cache_operations"
    and op: "cache_operations ! 1 = (''indices'', nepse_get_indices)"
    by (simp_all add: cache_operations_def)
  have p: "pass_prefix demo_env (snd (update_cache demo_env init_sys)) 1 =
     log_call ''get_all_stocks'' None (snd (update_cache demo_env init_sys))"
    by (simp add: demo_prefix_1)
  have "length (fetch_log (pass_prefix demo_env (snd (update_cache demo_env init_sys)) 1)) = 7"
    unfolding p by (simp add: log_call_def demo_pass refresh_calls_def)
  then have f: "fst (nepse_get_indices demo_env (pass_prefix demo_env (snd (update_cache demo_env init_sys)) 1)) =
     Inl (Exception ''timeout'')"
    by (simp add: nepse_get_indices_def opaque_service_def demo_env_def)
  have c: "cache (snd (update_cache demo_env init_sys)) ''indices'' =
     Some \<lparr>data = JList [JStr ''NEPSE''], last_updated = Some 0\<rparr>"
    by (simp add: demo_pass)
  from failed_fetch_keeps_entry[OF i op, of demo_env
      "pass_prefix demo_env (snd (update_cache demo_env init_sys)) 1" "Exception ''timeout''" JNull] f c
  show ?thesis by simp
qed




text \<open>
  Claim C6 says that a read of a stale or empty entry returns the result it has just
  stored. The top-ten routes return a slice of it: with \<open>limit = -1\<close> the service
  drops the last of three gainers, two are stored, and the response drops one more.
\<close>

theorem stale_read_counterexample:
  "fst (is_cache_valid demo_env 300 ''top_gainers'' init_sys) = Inr False \<and>
   fst (nepse_get_top_gainers demo_env (- 1) init_sys) = Inr (JList [JNum 1, JNum 2]) \<and>
   cache (snd (get_top_gainers demo_env 300 (- 1) init_sys)) ''top_gainers'' =
     Some \<lparr>data = JList [JNum 1, JNum 2], last_updated = Some 0\<rparr> \<and>
   fst (get_top_gainers demo_env 300 (- 1) init_sys) =
     Inr \<lparr>code = 200,
          body = [(''success'', B True), (''data'', J (JList [JNum 1])), (''cached'', B False),
                  (''last_updated'', StrfTime 1000000)]\<rparr> \<and>
   \<not> answers (fst (get_top_gainers demo_env 300 (- 1) init_sys)) (JList [JNum 1, JNum 2]) False"
proof -
  have s: "slice_to (- 1) [JNum 1, JNum 2, JNum 3] = [JNum 1, JNum 2]"
    and s2: "slice_to (- 1) [JNum 1, JNum 2] = [JNum 1]"
    by (simp_all add: slice_to_def)
  have ne: "[JNum 1, JNum 2] \<noteq> []" by simp
  show ?thesis
    by (simp add: init_gainers_invalid demo_top_gainers s init_gainers_read[OF s ne] s2 answers_def)
qed

text \<open>
  Claim C6, amended. For every cached category, when \<open>is_cache_valid\<close> says false at
  request time (the entry is empty, or as old as the TTL or older), the handler calls the
  service method of its category exactly once; and when that call returns a non-empty
  result, the entry becomes that result with the clock reading taken at the store, and
  the handler answers 200 with \<open>cached = false\<close> and the result as data, which the
  routes \<open>top_gainers\<close> and \<open>top_losers\<close> truncate once more to the request's limit.
\<close>

theorem stale_read_fetches_once:
  assumes "reachable ev ttl s" and "fst (is_cache_valid ev ttl (key_of c) s) = Inr False"
  shows "fetch_log (snd (handle c ev ttl limit s)) = fetch_log s @ [call_of c limit] \<and>
         (\<forall>v. fst (fetch_of c limit ev (snd (is_cache_valid ev ttl (key_of c) s))) = Inr v \<and>
              truthy v \<longrightarrow>
              cache (snd (handle c ev ttl limit s)) =
                (cache s)(key_of c \<mapsto>
                   \<lparr>data = v,
                    last_updated =
                      Some (now_at ev (nclock (snd (is_cache_valid ev ttl (key_of c) s))))\<rparr>) \<and>
              answers (fst (handle c ev ttl limit s)) (shown c limit v) False)"
proof -
  define s1 where "s1 = snd (is_cache_valid ev ttl (key_of c) s)"
  have iv: "is_cache_valid ev ttl (key_of c) s = (Inr False, s1)"
    using assms(2) by (simp add: s1_def prod_eq_iff)
  have c1: "cache s1 = cache s" and l1: "fetch_log s1 = fetch_log s"
    by (simp_all add: s1_def valid_cache valid_log)
  have ok: "cache_ok (cache s)" using assms(1) by (rule reachable_cache_ok)
  have fr: "fetch_frame (key_of c) (fetch_of c limit)" by (rule fetch_of_frame)
  have kd: "key_of c \<in> dom (cache s)" using ok key_in_init[of c] by (simp add: cache_ok_def)
  have a: "fetch_log (snd (handle c ev ttl limit s)) = fetch_log s @ [call_of c limit]"
    using handle_stale_log[OF iv] l1 by simp
  have b: "cache (snd (handle c ev ttl limit s)) =
             (cache s)(key_of c \<mapsto> \<lparr>data = v, last_updated = Some (now_at ev (nclock s1))\<rparr>) \<and>
           answers (fst (handle c ev ttl limit s)) (shown c limit v) False"
    if fv: "fst (fetch_of c limit ev s1) = Inr v" and tr: "truthy v" for v
  proof -
    define s2 where "s2 = snd (fetch_of c limit ev s1)"
    have f: "fetch_of c limit ev s1 = (Inr v, s2)" using fv by (simp add: s2_def prod_eq_iff)
    have c2: "cache s2 = cache s" and n2: "nclock s2 = nclock s1"
      using fetch_frame_cache[OF fr, of ev s1] fetch_frame_nclock[OF fr, of ev s1] c1
      by (simp_all add: s2_def)
    obtain e where e: "cache s2 (key_of c) = Some e" using kd c2 by auto
    show ?thesis using handle_stale_success[OF iv f tr e] c2 n2 by simp
  qed
  show ?thesis using a b unfolding s1_def by blast
qed

theorem stale_read_fetches_once_witness:
  "fst (is_cache_valid demo_env 1 (key_of TopGainers) started) = Inr False \<and>
   fetch_log (snd (handle TopGainers demo_env 1 2 started)) =
     refresh_calls @ [(''get_top_gainers'', Some 2)] \<and>
   cache (snd (handle TopGainers demo_env 1 2 started)) ''top_gainers'' =
     Some \<lparr>data = JList [JNum 1, JNum 2], last_updated = Some 4000000\<rparr> \<and>
   answers (fst (handle TopGainers demo_env 1 2 started)) (JList [JNum 1, JNum 2]) False"
proof -
  have v: "fst (is_cache_valid demo_env 1 (key_of TopGainers) started) = Inr False"
    by (simp add: started_gainers_stale)
  have s1: "snd (is_cache_valid demo_env 1 (key_of TopGainers) started) = started\<lparr>nclock := 4\<rparr>"
    by (simp add: started_gainers_stale)
  have f: "fst (fetch_of TopGainers 2 demo_env (started\<lparr>nclock := 4\<rparr>)) = Inr (JList [JNum 1, JNum 2])"
    by (simp add: demo_top_gainers slice_to_def)
  have n: "now_at demo_env (nclock (started\<lparr>nclock := 4\<rparr>)) = 4000000"
    by (simp add: demo_env_def)
  have l: "fetch_log started = refresh_calls" by (simp add: started_eq)
  have sh: "shown TopGainers 2 (JList [JNum 1, JNum 2]) = JList [JNum 1, JNum 2]"
    by (simp add: slice_to_def)
  note th = stale_read_fetches_once[OF started_reachable v, of 2]
  from th have a: "fetch_log (snd (handle TopGainers demo_env 1 2 started)) =
      fetch_log started @ [call_of TopGainers 2]"
    by (rule conjunct1)
  from th have "\<forall>v. fst (fetch_of TopGainers 2 demo_env (started\<lparr>nclock := 4\<rparr>)) = Inr v \<and> truthy v \<longrightarrow>
      cache (snd (handle TopGainers demo_env 1 2 started)) =
        (cache started)(key_of TopGainers \<mapsto>
           \<lparr>data = v, last_updated = Some (now_at demo_env (nclock (started\<lparr>nclock := 4\<rparr>)))\<rparr>) \<and>
      answers (fst (handle TopGainers demo_env 1 2 started)) (shown TopGainers 2 v) False"
    unfolding s1 by (rule conjunct2)
  then have b: "cache (snd (handle TopGainers demo_env 1 2 started)) =
        (cache started)(key_of TopGainers \<mapsto>
           \<lparr>data = JList [JNum 1, JNum 2],
            last_updated = Some (now_at demo_env (nclock (started\<lparr>nclock := 4\<rparr>)))\<rparr>) \<and>
      answers (fst (handle TopGainers demo_env 1 2 started))
        (shown TopGainers 2 (JList [JNum 1, JNum 2])) False"
    using f by simp
  show ?thesis using v a b n l sh by simp
qed

text \<open>
  Claim C7 says that the request's limit never affects what is cached. On an empty cache,
  a request with \<open>limit = 1\<close> stores one gainer where a request with \<open>limit = 3\<close>
  stores three, and the request with \<open>limit = 3\<close> that follows the first one is served
  the single cached gainer.
\<close>

theorem limit_reaches_cache:
  "cache (snd (get_top_gainers demo_env 300 1 init_sys)) ''top_gainers'' =
     Some \<lparr>data = JList [JNum 1], last_updated = Some 0\<rparr> \<and>
   cache (snd (get_top_gainers demo_env 300 3 init_sys)) ''top_gainers'' =
     Some \<lparr>data = JList [JNum 1, JNum 2, JNum 3], last_updated = Some 0\<rparr> \<and>
   fst (get_top_gainers demo_env 300 3 (snd (get_top_gainers demo_env 300 1 init_sys))) =
     Inr \<lparr>code = 200,
          body = [(''success'', B True), (''data'', J (JList [JNum 1])), (''cached'', B True),
                  (''last_updated'', StrfTime 0)]\<rparr>"
proof -
  have s1: "slice_to 1 [JNum 1, JNum 2, JNum 3] = [JNum 1]"
    and s3: "slice_to 3 [JNum 1, JNum 2, JNum 3] = [JNum 1, JNum 2, JNum 3]"
    and s31: "slice_to 3 [JNum 1] = [JNum 1]"
    by (simp_all add: slice_to_def)
  have ne1: "[JNum 1] \<noteq> []" and ne3: "[JNum 1, JNum 2, JNum 3] \<noteq> []" by simp_all
  let ?s = "\<lparr>cache = init_cache(''top_gainers'' \<mapsto> \<lparr>data = JList [JNum 1], last_updated = Some 0\<rparr>),
       nclock = 2, fetch_log = [(''get_top_gainers'', Some 1)]\<rparr>"
  have "now_at demo_env 2 = 2000000" by (simp add: demo_env_def)
  then have v: "is_cache_valid demo_env 300 ''top_gainers'' ?s = (Inr True, ?s\<lparr>nclock := 3\<rparr>)"
    using total_seconds_small[of 300 2000000] by (simp add: is_cache_valid_eq)
  have e: "cache (?s\<lparr>nclock := 3\<rparr>) ''top_gainers'' = Some \<lparr>data = JList [JNum 1], last_updated = Some 0\<rparr>"
    by simp
  have r: "get_top_gainers demo_env 300 3 ?s =
     (Inr \<lparr>code = 200,
          body = [(''success'', B True), (''data'', J (JList [JNum 1])), (''cached'', B True),
                  (''last_updated'', StrfTime 0)]\<rparr>, ?s\<lparr>nclock := 3\<rparr>)"
    unfolding get_top_gainers_def
    by (simp add: top_handler_cached[OF v e] s31)
  show ?thesis
    by (simp add: init_gainers_read[OF s1 ne1] init_gainers_read[OF s3 ne3] r)
qed

text \<open>
  Claim C10. The validity check never changes the cache, and a read that is served from
  the cache leaves the cache as it was, for every category and every limit: the slice
  shown by the top-ten routes is a new list.
\<close>

theorem cached_read_leaves_cache:
  "cache (snd (is_cache_valid ev ttl k s)) = cache s \<and>
   (fst (is_cache_valid ev ttl (key_of c) s) = Inr True \<longrightarrow>
      cache (snd (handle c ev ttl limit s)) = cache s)"
proof (intro conjI impI)
  show "cache (snd (is_cache_valid ev ttl k s)) = cache s" by (rule valid_cache)
next
  assume v: "fst (is_cache_valid ev ttl (key_of c) s) = Inr True"
  from valid_True[OF v] obtain e t where
    e: "cache s (key_of c) = Some e" and t: "last_updated e = Some t"
    and iv: "is_cache_valid ev ttl (key_of c) s = (Inr True, s\<lparr>nclock := Suc (nclock s)\<rparr>)"
    by blast
  have e1: "cache (s\<lparr>nclock := Suc (nclock s)\<rparr>) (key_of c) = Some e" using e by simp
  show "cache (snd (handle c ev ttl limit s)) = cache s"
    by (simp add: handle_cached[OF iv e1 t] split: category.splits sum.splits)
qed

theorem cached_read_leaves_cache_witness:
  "fst (is_cache_valid demo_env 300 (key_of TopGainers) started) = Inr True \<and>
   cache (snd (is_cache_valid demo_env 300 (key_of TopGainers) started)) = cache started \<and>
   cache (snd (handle TopGainers demo_env 300 1 started)) = cache started \<and>
   answers (fst (handle TopGainers demo_env 300 1 started)) (JList [JNum 1]) True \<and>
   cache started ''top_gainers'' =
     Some \<lparr>data = JList [JNum 1, JNum 2, JNum 3], last_updated = Some 1000000\<rparr>"
proof -
  have v: "fst (is_cache_valid demo_env 300 (key_of TopGainers) started) = Inr True"
    by (simp add: started_gainers_valid)
  have a: "answers (fst (handle TopGainers demo_env 300 1 started)) (JList [JNum 1]) True"
    by (simp add: started_gainers_read answers_def)
  show ?thesis
    using cached_read_leaves_cache[of demo_env 300 "key_of TopGainers" started TopGainers 1]
      v a started_gainers
    by simp
qed

end
